theory Spec2Isabelle
  imports Main "HOL-Library.AList"
begin

section \<open>JavaScript values and objects\<close>

text \<open>
  The enum composer of \<^verbatim>\<open>src/src/enumTypeComposer.js\<close> works on plain JavaScript
  objects that are shared by reference: the value map handed to \<^verbatim>\<open>setFields\<close> becomes
  the backing map of the type, the table returned by \<^verbatim>\<open>getFields\<close> is the cached
  lookup table of the type, and \<^verbatim>\<open>delete values[key].isDeprecated\<close> updates an object
  in place. The model therefore keeps an explicit store.

  An object is the list of its own properties in insertion order, which is the order of
  \<^verbatim>\<open>Object.keys\<close> and of object spread for property names that are not array
  indices; enum value names and the property names of a value config are identifiers, so
  this is the order the code observes. \<^verbatim>\<open>obj[k] = v\<close> is \<^term>\<open>AList.update k v obj\<close>
  (an existing key keeps its place, a new one goes last), \<^verbatim>\<open>delete obj[k]\<close> is
  \<^term>\<open>AList.delete k obj\<close>, and \<^verbatim>\<open>obj[k]\<close> is \<^term>\<open>map_of obj k\<close> with
  \<^term>\<open>None\<close> for \<^verbatim>\<open>undefined\<close>: a read of an own property, as the tables the
  composer reads names from are lookup tables and not objects with inherited members.
\<close>

datatype jsval = JUndefined | JNull | JBool bool | JNum int | JStr string | JRef nat

type_synonym props = "(string \<times> jsval) list"

type_synonym valuemap = "(string \<times> nat) list"

text \<open>\<^verbatim>\<open>Object.keys(obj)\<close>.\<close>

abbreviation Object_keys :: "('k \<times> 'v) list \<Rightarrow> 'k list" where
  "Object_keys obj \<equiv> map fst obj"

text \<open>\<^verbatim>\<open>{...a, ...b}\<close>: the properties of \<open>a\<close>, then those of \<open>b\<close> assigned in order.\<close>

definition spread :: "('k \<times> 'v) list \<Rightarrow> ('k \<times> 'v) list \<Rightarrow> ('k \<times> 'v) list" where
  "spread a b = fold (\<lambda>(k, v). AList.update k v) b a"

text \<open>\<^verbatim>\<open>obj.k\<close> as a value: a missing property reads as \<^verbatim>\<open>undefined\<close>.\<close>

definition get_prop :: "props \<Rightarrow> string \<Rightarrow> jsval" where
  "get_prop obj k = (case map_of obj k of None \<Rightarrow> JUndefined | Some v \<Rightarrow> v)"

text \<open>\<^verbatim>\<open>Boolean(v)\<close>.\<close>

fun truthy :: "jsval \<Rightarrow> bool" where
  "truthy JUndefined = False"
| "truthy JNull = False"
| "truthy (JBool b) = b"
| "truthy (JNum n) = (n \<noteq> 0)"
| "truthy (JStr s) = (s \<noteq> [])"
| "truthy (JRef a) = True"

section \<open>The store\<close>

text \<open>
  \<^verbatim>\<open>GraphQLEnumTypeConfig\<close>: the config object a type is built from and keeps as
  \<^verbatim>\<open>_enumConfig\<close>; \<open>config_values\<close> is the address of its value map.
\<close>

record GraphQLEnumTypeConfig =
  config_name :: string
  config_description :: "string option"
  config_values :: nat

text \<open>
  \<^verbatim>\<open>GraphQLEnumType\<close>: the instance fields the composer reads and writes. The three
  caches are \<^verbatim>\<open>_values\<close>, \<^verbatim>\<open>_valueLookup\<close> and \<^verbatim>\<open>_nameLookup\<close>;
  \<^term>\<open>None\<close> is a deleted (absent) field.
\<close>

record GraphQLEnumType =
  type_name :: string
  type_description :: "string option"
  enumConfig :: GraphQLEnumTypeConfig
  values_cache :: "nat option"
  valueLookup_cache :: "nat option"
  nameLookup_cache :: "nat option"

text \<open>
  The store has three kinds of objects, as the Flow types of the source separate them:
  enum types, value maps (\<^verbatim>\<open>GraphQLEnumValueConfigMap\<close>: name to value config) and
  value configs. Each kind has its own addresses and its own allocation counter.
\<close>

record heap =
  types :: "nat \<Rightarrow> GraphQLEnumType"
  maps :: "nat \<Rightarrow> valuemap"
  objs :: "nat \<Rightarrow> props"
  next_type :: nat
  next_map :: nat
  next_obj :: nat

definition alloc_obj :: "props \<Rightarrow> heap \<Rightarrow> nat \<times> heap" where
  "alloc_obj p h = (next_obj h, h\<lparr>objs := (objs h)(next_obj h := p), next_obj := Suc (next_obj h)\<rparr>)"

definition alloc_map :: "valuemap \<Rightarrow> heap \<Rightarrow> nat \<times> heap" where
  "alloc_map m h = (next_map h, h\<lparr>maps := (maps h)(next_map h := m), next_map := Suc (next_map h)\<rparr>)"

definition alloc_type :: "GraphQLEnumType \<Rightarrow> heap \<Rightarrow> nat \<times> heap" where
  "alloc_type t h = (next_type h, h\<lparr>types := (types h)(next_type h := t), next_type := Suc (next_type h)\<rparr>)"

text \<open>A value map read through: each name with the properties of its value config.\<close>

definition entries :: "heap \<Rightarrow> nat \<Rightarrow> (string \<times> props) list" where
  "entries h m = map (\<lambda>(k, c). (k, objs h c)) (maps h m)"

section \<open>The enum type of the GraphQL library\<close>

text \<open>
  Modelled from the spec: the class \<^verbatim>\<open>GraphQLEnumType\<close> that the composer imports from
  \<^verbatim>\<open>./graphql\<close> (its constructor and its \<^verbatim>\<open>_getNameLookup\<close>) is not among the sources.
  The spec describes the read view as a cached derived lookup table that is recomputed
  lazily on the next read from the canonical map, and that "computes deprecation
  display-state from \<^verbatim>\<open>deprecationReason\<close> presence". So a value of the read view is a
  new object with the properties of the value config and the marker
  \<^verbatim>\<open>isDeprecated\<close> set to \<^verbatim>\<open>Boolean(deprecationReason)\<close>.
\<close>

definition defineEnumValue :: "props \<Rightarrow> props" where
  "defineEnumValue config =
     AList.update ''isDeprecated'' (JBool (truthy (get_prop config ''deprecationReason''))) config"

fun defineEnumValues :: "valuemap \<Rightarrow> heap \<Rightarrow> valuemap \<times> heap" where
  "defineEnumValues [] h = ([], h)"
| "defineEnumValues ((valueName, c) # valueMap) h =
     (let (v, h1) = alloc_obj (defineEnumValue (objs h c)) h;
          (lookup, h2) = defineEnumValues valueMap h1
      in ((valueName, v) # lookup, h2))"

text \<open>
  Modelled from the spec: \<^verbatim>\<open>_getNameLookup\<close> of the absent class. It returns the cached
  table when there is one, and otherwise builds the table from \<^verbatim>\<open>_enumConfig.values\<close>
  and caches it.
\<close>

definition getNameLookup :: "nat \<Rightarrow> heap \<Rightarrow> nat \<times> heap" where
  "getNameLookup t h =
     (case nameLookup_cache (types h t) of
        Some lookup \<Rightarrow> (lookup, h)
      | None \<Rightarrow>
          (let (vs, h1) = defineEnumValues (maps h (config_values (enumConfig (types h t)))) h;
               (lookup, h2) = alloc_map vs h1
           in (lookup, h2\<lparr>types := (types h2)(t := (types h2 t)\<lparr>nameLookup_cache := Some lookup\<rparr>)\<rparr>)))"

text \<open>
  Modelled from the spec: the constructor \<^verbatim>\<open>new GraphQLEnumType(config)\<close> of the absent
  class. The new type takes its name and description from the config, keeps the config,
  and has no derived table yet.
\<close>

definition new_GraphQLEnumType :: "GraphQLEnumTypeConfig \<Rightarrow> heap \<Rightarrow> nat \<times> heap" where
  "new_GraphQLEnumType config h =
     alloc_type \<lparr>type_name = config_name config, type_description = config_description config,
                 enumConfig = config, values_cache = None, valueLookup_cache = None,
                 nameLookup_cache = None\<rparr> h"

section \<open>The enum composer\<close>

text \<open>
  An \<^verbatim>\<open>EnumTypeComposer\<close> has one field, \<^verbatim>\<open>gqType\<close>, the address of the type it
  wraps. Every method takes the store and returns the store it leaves; the mutators
  return \<^verbatim>\<open>this\<close> in the source, which the model leaves out. A thrown
  \<^verbatim>\<open>new Error(message)\<close> is \<^term>\<open>Inl (Error message)\<close>, together with the store as it
  is when the error is raised.
\<close>

datatype EnumTypeComposer = EnumTypeComposer (gqType: nat)

datatype error = Error string

text \<open>A template placeholder between single quotes, as the messages of the source have it.\<close>

definition quoted :: "string \<Rightarrow> string" where
  "quoted s = [CHR 0x27] @ s @ [CHR 0x27]"

definition getTypeName :: "EnumTypeComposer \<Rightarrow> heap \<Rightarrow> string" where
  "getTypeName etc h = type_name (types h (gqType etc))"

definition getFields :: "EnumTypeComposer \<Rightarrow> heap \<Rightarrow> nat \<times> heap" where
  "getFields etc h = getNameLookup (gqType etc) h"

definition hasField :: "string \<Rightarrow> EnumTypeComposer \<Rightarrow> heap \<Rightarrow> bool \<times> heap" where
  "hasField name etc h =
     (let (vs, h1) = getFields etc h in (map_of (maps h1 vs) name \<noteq> None, h1))"

definition getField :: "string \<Rightarrow> EnumTypeComposer \<Rightarrow> heap \<Rightarrow> (error + nat) \<times> heap" where
  "getField name etc h =
     (let (vs, h1) = getFields etc h
      in case map_of (maps h1 vs) name of
           None \<Rightarrow>
             (Inl (Error (''Cannot get value '' @ quoted name @ '' from enum type ''
                          @ quoted (getTypeName etc h1)
                          @ ''. Value with such name does not exist.'')), h1)
         | Some v \<Rightarrow> (Inr v, h1))"

definition getFieldNames :: "EnumTypeComposer \<Rightarrow> heap \<Rightarrow> string list \<times> heap" where
  "getFieldNames etc h = (let (vs, h1) = getFields etc h in (Object_keys (maps h1 vs), h1))"

text \<open>The loop of \<^verbatim>\<open>setFields\<close>: \<^verbatim>\<open>delete values[key].isDeprecated\<close> for every key.\<close>

definition delete_isDeprecated :: "props \<Rightarrow> props" where
  "delete_isDeprecated p = AList.delete ''isDeprecated'' p"

definition cleanup_isDeprecated :: "valuemap \<Rightarrow> heap \<Rightarrow> heap" where
  "cleanup_isDeprecated vs h =
     fold (\<lambda>(key, c) h. h\<lparr>objs := (objs h)(c := delete_isDeprecated (objs h c))\<rparr>) vs h"

definition setFields :: "nat \<Rightarrow> EnumTypeComposer \<Rightarrow> heap \<Rightarrow> heap" where
  "setFields vs etc h =
     (let h1 = cleanup_isDeprecated (maps h vs) h;
          t = gqType etc
      in h1\<lparr>types := (types h1)(t := (types h1 t)
              \<lparr>enumConfig := (enumConfig (types h1 t))\<lparr>config_values := vs\<rparr>,
               values_cache := None, valueLookup_cache := None, nameLookup_cache := None\<rparr>)\<rparr>)"

definition addFields :: "nat \<Rightarrow> EnumTypeComposer \<Rightarrow> heap \<Rightarrow> heap" where
  "addFields newValues etc h =
     (let (fields, h1) = getFields etc h;
          (vs, h2) = alloc_map (spread (maps h1 fields) (maps h1 newValues)) h1
      in setFields vs etc h2)"

definition setField :: "string \<Rightarrow> nat \<Rightarrow> EnumTypeComposer \<Rightarrow> heap \<Rightarrow> heap" where
  "setField name valueConfig etc h =
     (let (newValues, h1) = alloc_map [(name, valueConfig)] h in addFields newValues etc h1)"

text \<open>
  \<^verbatim>\<open>removeField\<close> takes a name or an array of names. Its loop deletes the names from the
  table that \<^verbatim>\<open>getFields\<close> returned, in place; \<^verbatim>\<open>{ ...values }\<close> is a new map with
  the properties that are left.
\<close>

datatype 'a one_or_array = One 'a | Array "'a list"

text \<open>\<^verbatim>\<open>Array.isArray(x) ? x : [x]\<close>.\<close>

definition as_array :: "'a one_or_array \<Rightarrow> 'a list" where
  "as_array x = (case x of Array xs \<Rightarrow> xs | One y \<Rightarrow> [y])"

definition removeField :: "string one_or_array \<Rightarrow> EnumTypeComposer \<Rightarrow> heap \<Rightarrow> heap" where
  "removeField nameOrArray etc h =
     (let valueNames = as_array nameOrArray;
          (vs, h1) = getFields etc h;
          h2 = h1\<lparr>maps := (maps h1)(vs := fold AList.delete valueNames (maps h1 vs))\<rparr>;
          (copy, h3) = alloc_map (maps h2 vs) h2
      in setFields copy etc h3)"

text \<open>
  \<^verbatim>\<open>removeOtherFields\<close> deletes from the table that \<^verbatim>\<open>getFields\<close> returned every name
  it is not asked to keep, and hands that same table to \<^verbatim>\<open>setFields\<close>.
\<close>

definition removeOtherFields :: "string one_or_array \<Rightarrow> EnumTypeComposer \<Rightarrow> heap \<Rightarrow> heap" where
  "removeOtherFields fieldNameOrArray etc h =
     (let keepFieldNames = as_array fieldNameOrArray;
          (flds, h1) = getFields etc h;
          h2 = h1\<lparr>maps := (maps h1)(flds :=
                 fold (\<lambda>fieldName m. if fieldName \<notin> set keepFieldNames then AList.delete fieldName m else m)
                      (Object_keys (maps h1 flds)) (maps h1 flds))\<rparr>
      in setFields flds etc h2)"

text \<open>
  The loop of \<^verbatim>\<open>reorderFields\<close>, on the properties of \<^verbatim>\<open>orderedFields\<close> and of
  \<^verbatim>\<open>fields\<close>: a name that \<^verbatim>\<open>fields\<close> has moves to \<^verbatim>\<open>orderedFields\<close>.
\<close>

fun reorder_loop :: "string list \<Rightarrow> valuemap \<Rightarrow> valuemap \<Rightarrow> valuemap \<times> valuemap" where
  "reorder_loop [] orderedFields flds = (orderedFields, flds)"
| "reorder_loop (name # names) orderedFields flds =
     (case map_of flds name of
        Some v \<Rightarrow> reorder_loop names (AList.update name v orderedFields) (AList.delete name flds)
      | None \<Rightarrow> reorder_loop names orderedFields flds)"

definition reorderFields :: "string list \<Rightarrow> EnumTypeComposer \<Rightarrow> heap \<Rightarrow> heap" where
  "reorderFields names etc h =
     (let (fields, h1) = getFields etc h;
          (orderedFields, rest) = reorder_loop names [] (maps h1 fields);
          h2 = h1\<lparr>maps := (maps h1)(fields := rest)\<rparr>;
          (vs, h3) = alloc_map (spread orderedFields (maps h2 fields)) h2
      in setFields vs etc h3)"

text \<open>
  \<^verbatim>\<open>extendField\<close>: the partial config is only read, so it is passed as its properties.
\<close>

definition extendField :: "string \<Rightarrow> props \<Rightarrow> EnumTypeComposer \<Rightarrow> heap \<Rightarrow> (error + unit) \<times> heap" where
  "extendField name partialValueConfig etc h =
     (case getField name etc h of
        (Inl e, h1) \<Rightarrow>
          (Inl (Error (''Cannot extend value '' @ quoted name @ '' from enum ''
                       @ quoted (getTypeName etc h1) @ ''. Value does not exist.'')), h1)
      | (Inr prevValueConfig, h1) \<Rightarrow>
          (let (valueConfig, h2) = alloc_obj (spread (objs h1 prevValueConfig) partialValueConfig) h1
           in (Inr (), setField name valueConfig etc h2)))"

definition setTypeName :: "string \<Rightarrow> EnumTypeComposer \<Rightarrow> heap \<Rightarrow> heap" where
  "setTypeName name etc h =
     (let t = gqType etc;
          h1 = h\<lparr>types := (types h)(t := (types h t)\<lparr>type_name := name\<rparr>)\<rparr>
      in h1\<lparr>types := (types h1)(t := (types h1 t)
              \<lparr>enumConfig := (enumConfig (types h1 t))\<lparr>config_name := name\<rparr>\<rparr>)\<rparr>)"

text \<open>\<^verbatim>\<open>this.gqType.description || ''\<close>: an absent description reads as the empty string.\<close>

definition getDescription :: "EnumTypeComposer \<Rightarrow> heap \<Rightarrow> string" where
  "getDescription etc h =
     (case type_description (types h (gqType etc)) of None \<Rightarrow> [] | Some d \<Rightarrow> d)"

definition setDescription :: "string \<Rightarrow> EnumTypeComposer \<Rightarrow> heap \<Rightarrow> heap" where
  "setDescription description etc h =
     (let t = gqType etc;
          h1 = h\<lparr>types := (types h)(t := (types h t)\<lparr>type_description := Some description\<rparr>)\<rparr>
      in h1\<lparr>types := (types h1)(t := (types h1 t)
              \<lparr>enumConfig := (enumConfig (types h1 t))\<lparr>config_description := Some description\<rparr>\<rparr>)\<rparr>)"

text \<open>
  \<^verbatim>\<open>deprecateFields\<close> takes a name, an array of names or an object from names to
  reasons. The three branches of the source run the same two statements for a field: the
  check against \<^verbatim>\<open>existedFieldNames\<close>, then \<^verbatim>\<open>extendField\<close>. \<^verbatim>\<open>forEach\<close> stops at
  the first callback that throws.
\<close>

datatype deprecate_fields =
  FieldName string | FieldNames "string list" | FieldMap "(string \<times> string) list"

definition deprecate_one ::
  "string list \<Rightarrow> string \<Rightarrow> string \<Rightarrow> EnumTypeComposer \<Rightarrow> heap \<Rightarrow> (error + unit) \<times> heap" where
  "deprecate_one existedFieldNames field deprecationReason etc h =
     (if field \<notin> set existedFieldNames
      then (Inl (Error (''Cannot deprecate unexisted value '' @ quoted field @ '' from enum ''
                        @ quoted (getTypeName etc h))), h)
      else extendField field [(''deprecationReason'', JStr deprecationReason)] etc h)"

fun forEach :: "('a \<Rightarrow> heap \<Rightarrow> (error + unit) \<times> heap) \<Rightarrow> 'a list \<Rightarrow> heap \<Rightarrow> (error + unit) \<times> heap" where
  "forEach f [] h = (Inr (), h)"
| "forEach f (x # xs) h =
     (case f x h of (Inl e, h1) \<Rightarrow> (Inl e, h1) | (Inr u, h1) \<Rightarrow> forEach f xs h1)"

definition deprecateFields :: "deprecate_fields \<Rightarrow> EnumTypeComposer \<Rightarrow> heap \<Rightarrow> (error + unit) \<times> heap" where
  "deprecateFields flds etc h =
     (let (existedFieldNames, h0) = getFieldNames etc h
      in case flds of
           FieldName field \<Rightarrow> deprecate_one existedFieldNames field ''deprecated'' etc h0
         | FieldNames fs \<Rightarrow>
             forEach (\<lambda>field. deprecate_one existedFieldNames field ''deprecated'' etc) fs h0
         | FieldMap fieldMap \<Rightarrow>
             forEach (\<lambda>(field, deprecationReason).
                        deprecate_one existedFieldNames field deprecationReason etc) fieldMap h0)"

text \<open>
  The loop of \<^verbatim>\<open>clone\<close>: for every field a new object with the properties of the
  value, and \<^verbatim>\<open>isDeprecated\<close> deleted from it.
\<close>

fun clone_values :: "valuemap \<Rightarrow> heap \<Rightarrow> valuemap \<times> heap" where
  "clone_values [] h = ([], h)"
| "clone_values ((fieldName, v) # vs) h =
     (let (c, h1) = alloc_obj (objs h v) h;
          h2 = h1\<lparr>objs := (objs h1)(c := delete_isDeprecated (objs h1 c))\<rparr>;
          (newValues, h3) = clone_values vs h2
      in ((fieldName, c) # newValues, h3))"

definition clone :: "string \<Rightarrow> EnumTypeComposer \<Rightarrow> heap \<Rightarrow> (error + EnumTypeComposer) \<times> heap" where
  "clone newTypeName etc h =
     (if newTypeName = []
      then (Inl (Error ''You should provide newTypeName:string for EnumTypeComposer.clone()''), h)
      else
        (let (vs, h1) = getFields etc h;
             (newValues, h2) = clone_values (maps h1 vs) h1;
             (nv, h3) = alloc_map newValues h2;
             (t, h4) = new_GraphQLEnumType
                         \<lparr>config_name = newTypeName, config_description = None, config_values = nv\<rparr> h3;
             cloned = EnumTypeComposer t
         in (Inr cloned, setDescription (getDescription etc h4) cloned h4)))"


section \<open>Reading the store\<close>

text \<open>
  The notions the statements below are written in. \<open>map_values f\<close> applies \<open>f\<close> to the
  value of every property and keeps names and order.
\<close>

definition map_values :: "('v \<Rightarrow> 'w) \<Rightarrow> ('k \<times> 'v) list \<Rightarrow> ('k \<times> 'w) list" where
  "map_values f xs = map (\<lambda>(k, v). (k, f v)) xs"

text \<open>
  The backing map of a composer, \<^verbatim>\<open>gqType._enumConfig.values\<close>, read through: the
  configs as they are stored.
\<close>

definition storedFields :: "heap \<Rightarrow> EnumTypeComposer \<Rightarrow> (string \<times> props) list" where
  "storedFields h etc = entries h (config_values (enumConfig (types h (gqType etc))))"

text \<open>
  What \<^verbatim>\<open>getFields()\<close> shows in store \<open>h\<close>: the table it returns, read through in the
  store it leaves.
\<close>

definition readFields :: "heap \<Rightarrow> EnumTypeComposer \<Rightarrow> (string \<times> props) list" where
  "readFields h etc = (let (l, h1) = getFields etc h in entries h1 l)"

text \<open>\<^verbatim>\<open>getField(name).deprecationReason\<close>, when the field is there.\<close>

definition deprecationReason :: "heap \<Rightarrow> EnumTypeComposer \<Rightarrow> string \<Rightarrow> jsval option" where
  "deprecationReason h etc name =
     map_option (\<lambda>p. get_prop p ''deprecationReason'') (map_of (readFields h etc) name)"

text \<open>
  \<open>m\<close> is the address of a value map of the store: it is allocated, its property names
  are distinct (it is an object), and every value is the address of an allocated config.
  References in JavaScript never dangle; in the model that is this predicate.
\<close>

definition wf_map :: "heap \<Rightarrow> nat \<Rightarrow> bool" where
  "wf_map h m = (m < next_map h \<and> distinct (Object_keys (maps h m)) \<and>
                 (\<forall>(k, c) \<in> set (maps h m). c < next_obj h))"

text \<open>
  A composer in a store: its type is allocated, its backing map is a value map of the store
  whose configs carry no \<^verbatim>\<open>isDeprecated\<close> (what \<^verbatim>\<open>setFields\<close> establishes), and a
  cached lookup table, when the type has one, is the table that \<^verbatim>\<open>_getNameLookup\<close>
  builds from the backing map (nothing wrote to the table or to the configs behind the
  composer's back since it was built).
\<close>

definition wf_composer :: "heap \<Rightarrow> EnumTypeComposer \<Rightarrow> bool" where
  "wf_composer h etc =
     (let t = types h (gqType etc); vs = config_values (enumConfig t)
      in gqType etc < next_type h \<and> wf_map h vs \<and>
         (\<forall>(k, c) \<in> set (maps h vs). map_of (objs h c) ''isDeprecated'' = None) \<and>
         (case nameLookup_cache t of
            None \<Rightarrow> True
          | Some lookup \<Rightarrow>
              lookup < next_map h \<and> (\<forall>(k, v) \<in> set (maps h lookup). v < next_obj h) \<and>
              entries h lookup = map_values defineEnumValue (entries h vs)))"

text \<open>
  The fields a call of \<^verbatim>\<open>deprecateFields\<close> names, in the order it visits them, each
  with the reason it gives: the fixed \<^verbatim>\<open>'deprecated'\<close> for a name or an array, the
  caller's reason for an object.
\<close>

definition deprecate_targets :: "deprecate_fields \<Rightarrow> (string \<times> string) list" where
  "deprecate_targets flds =
     (case flds of
        FieldName field \<Rightarrow> [(field, ''deprecated'')]
      | FieldNames fs \<Rightarrow> map (\<lambda>field. (field, ''deprecated'')) fs
      | FieldMap fieldMap \<Rightarrow> fieldMap)"

text \<open>The properties of \<open>xs\<close> with a name in \<open>ns\<close>, in the order of \<open>ns\<close>.\<close>

definition pick :: "'k list \<Rightarrow> ('k \<times> 'v) list \<Rightarrow> ('k \<times> 'v) list" where
  "pick ns xs = List.map_filter (\<lambda>n. map_option (Pair n) (map_of xs n)) ns"

text \<open>One field of a field map with \<^verbatim>\<open>deprecationReason\<close> set.\<close>

abbreviation deprecate_entry :: "string \<times> string \<Rightarrow> (string \<times> props) list \<Rightarrow> (string \<times> props) list" where
  "deprecate_entry \<equiv> (\<lambda>(field, reason).
      AList.map_entry field (AList.update ''deprecationReason'' (JStr reason)))"

subsection \<open>Mutator calls and what they may write\<close>

text \<open>
  A call of one of the mutators of the composer, and the store it leaves. For the two
  mutators that can throw it is the store at the throw.
\<close>

datatype mutation =
    SetFields nat
  | SetField string nat
  | AddFields nat
  | RemoveField "string one_or_array"
  | RemoveOtherFields "string one_or_array"
  | ReorderFields "string list"
  | ExtendField string props
  | SetTypeName string
  | SetDescription string
  | DeprecateFields deprecate_fields

fun mutate :: "mutation \<Rightarrow> EnumTypeComposer \<Rightarrow> heap \<Rightarrow> heap" where
  "mutate (SetFields m) etc h = setFields m etc h"
| "mutate (SetField name c) etc h = setField name c etc h"
| "mutate (AddFields m) etc h = addFields m etc h"
| "mutate (RemoveField x) etc h = removeField x etc h"
| "mutate (RemoveOtherFields x) etc h = removeOtherFields x etc h"
| "mutate (ReorderFields names) etc h = reorderFields names etc h"
| "mutate (ExtendField name partial) etc h = snd (extendField name partial etc h)"
| "mutate (SetTypeName name) etc h = setTypeName name etc h"
| "mutate (SetDescription d) etc h = setDescription d etc h"
| "mutate (DeprecateFields flds) etc h = snd (deprecateFields flds etc h)"

text \<open>
  The cached lookup table of a composer, when it has one, and the value objects in it:
  the objects of the read view, which carry the derived \<^verbatim>\<open>isDeprecated\<close>.
\<close>

definition cache_maps :: "heap \<Rightarrow> EnumTypeComposer \<Rightarrow> nat set" where
  "cache_maps h etc =
     (case nameLookup_cache (types h (gqType etc)) of None \<Rightarrow> {} | Some l \<Rightarrow> {l})"

definition view_objs :: "heap \<Rightarrow> EnumTypeComposer \<Rightarrow> nat set" where
  "view_objs h etc =
     (case nameLookup_cache (types h (gqType etc)) of None \<Rightarrow> {} | Some l \<Rightarrow> snd ` set (maps h l))"

text \<open>
  The value configs a mutator call is handed by reference, and whether the value map it is
  handed is an allocated one.
\<close>

definition arg_objs :: "heap \<Rightarrow> mutation \<Rightarrow> nat set" where
  "arg_objs h mu =
     (case mu of SetFields m \<Rightarrow> snd ` set (maps h m) | AddFields m \<Rightarrow> snd ` set (maps h m)
      | SetField name c \<Rightarrow> {c} | _ \<Rightarrow> {})"

definition arg_allocated :: "heap \<Rightarrow> mutation \<Rightarrow> bool" where
  "arg_allocated h mu =
     (case mu of SetFields m \<Rightarrow> m < next_map h | AddFields m \<Rightarrow> m < next_map h | _ \<Rightarrow> True)"

text \<open>What the read accessors of a composer show: name, description and fields.\<close>

definition observe :: "heap \<Rightarrow> EnumTypeComposer \<Rightarrow> string \<times> string \<times> (string \<times> props) list" where
  "observe h etc = (getTypeName etc h, getDescription etc h, readFields h etc)"

text \<open>
  \<open>frame Ms Os t h h'\<close>: store \<open>h'\<close> comes from \<open>h\<close> by allocation and by writes to the
  type \<open>t\<close>, to the value maps \<open>Ms\<close> and to the objects \<open>Os\<close>; an object of \<open>h\<close> is in
  \<open>h'\<close> what it was, or what it was without \<^verbatim>\<open>isDeprecated\<close>.
\<close>

definition frame :: "nat set \<Rightarrow> nat set \<Rightarrow> nat \<Rightarrow> heap \<Rightarrow> heap \<Rightarrow> bool" where
  "frame Ms Os t h h' =
     (next_obj h \<le> next_obj h' \<and> next_map h \<le> next_map h' \<and> next_type h \<le> next_type h' \<and>
      (\<forall>t'. t' \<noteq> t \<longrightarrow> types h' t' = types h t') \<and>
      (\<forall>m < next_map h. m \<notin> Ms \<longrightarrow> maps h' m = maps h m) \<and>
      (\<forall>c < next_obj h. (c \<notin> Os \<longrightarrow> objs h' c = objs h c) \<and>
         (objs h' c = objs h c \<or> objs h' c = delete_isDeprecated (objs h c))))"

subsection \<open>An example store\<close>

text \<open>
  The enum \<^verbatim>\<open>Color { RED GREEN BLUE }\<close> of the spec's scenario behind the composer
  \<open>Color\<close>, with \<^verbatim>\<open>GREEN\<close> deprecated, and value maps a caller holds: map 1 is
  \<^verbatim>\<open>{}\<close>, map 2 is \<^verbatim>\<open>{GREEN: c3, PURPLE: c4}\<close> and map 3 is
  \<^verbatim>\<open>{PURPLE: c5, RED: c3}\<close>, where the config \<^verbatim>\<open>c3\<close> is shared and carries a
  stray \<^verbatim>\<open>isDeprecated\<close>.
\<close>

definition Color :: EnumTypeComposer where
  "Color = EnumTypeComposer 0"

definition store0 :: heap where
  "store0 =
     \<lparr>types = (\<lambda>a. \<lparr>type_name = ''Color'', type_description = None,
                      enumConfig = \<lparr>config_name = ''Color'', config_description = None, config_values = 0\<rparr>,
                      values_cache = None, valueLookup_cache = None, nameLookup_cache = None\<rparr>),
      maps = (\<lambda>a. [])
        (0 := [(''RED'', 0), (''GREEN'', 1), (''BLUE'', 2)],
         2 := [(''GREEN'', 3), (''PURPLE'', 4)],
         3 := [(''PURPLE'', 5), (''RED'', 3)]),
      objs = (\<lambda>a. [])
        (0 := [(''value'', JNum 0)],
         1 := [(''value'', JNum 1), (''deprecationReason'', JStr ''old'')],
         2 := [(''value'', JNum 2)],
         3 := [(''value'', JNum 10), (''isDeprecated'', JBool True)],
         4 := [(''value'', JNum 4)],
         5 := [(''value'', JNum 5), (''deprecationReason'', JStr ''gone'')]),
      next_type = 1, next_map = 4, next_obj = 6\<rparr>"

section \<open>Association lists\<close>

lemma map_values_simps [simp]:
  "map_values f [] = []"
  "map_values f ((k, v) # xs) = (k, f v) # map_values f xs"
  "map_values f (xs @ ys) = map_values f xs @ map_values f ys"
  by (simp_all add: map_values_def)

lemma keys_map_values [simp]: "Object_keys (map_values f xs) = Object_keys xs"
  by (induction xs) auto

lemma map_values_map_values [simp]: "map_values f (map_values g xs) = map_values (\<lambda>v. f (g v)) xs"
  by (induction xs) auto

lemma map_values_update:
  "map_values f (AList.update k v xs) = AList.update k (f v) (map_values f xs)"
  by (induction xs) auto

lemma map_values_delete:
  "map_values f (AList.delete k xs) = AList.delete k (map_values f xs)"
  by (induction xs) auto

lemma map_values_spread:
  "map_values f (spread a b) = spread (map_values f a) (map_values f b)"
  unfolding spread_def
  by (induction b arbitrary: a) (auto simp: map_values_update)

lemma map_values_cong:
  "(\<And>v. v \<in> snd ` set xs \<Longrightarrow> f v = g v) \<Longrightarrow> map_values f xs = map_values g xs"
  by (induction xs) auto

lemma map_values_id: "(\<And>v. v \<in> snd ` set xs \<Longrightarrow> f v = v) \<Longrightarrow> map_values f xs = xs"
  by (induction xs) auto

lemma map_of_map_values: "map_of (map_values f xs) k = map_option f (map_of xs k)"
  by (induction xs) auto

lemma entries_map_values: "entries h m = map_values (objs h) (maps h m)"
  by (simp add: entries_def map_values_def)

lemma delete_defineEnumValue [simp]:
  "delete_isDeprecated (defineEnumValue p) = delete_isDeprecated p"
  by (simp add: delete_isDeprecated_def defineEnumValue_def AList.delete_update_same)

lemma delete_isDeprecated_idem [simp]:
  "delete_isDeprecated (delete_isDeprecated p) = delete_isDeprecated p"
  by (simp add: delete_isDeprecated_def AList.delete_idem)

lemma delete_isDeprecated_none:
  "map_of p ''isDeprecated'' = None \<Longrightarrow> delete_isDeprecated p = p"
  unfolding delete_isDeprecated_def
  by (induction p) (auto split: if_splits)

lemma map_of_delete_isDeprecated [simp]:
  "map_of (delete_isDeprecated p) ''isDeprecated'' = None"
  by (simp add: delete_isDeprecated_def AList.delete_conv')

section \<open>Allocation\<close>

lemma alloc_obj_simps [simp]:
  "fst (alloc_obj p h) = next_obj h"
  "objs (snd (alloc_obj p h)) = (objs h)(next_obj h := p)"
  "next_obj (snd (alloc_obj p h)) = Suc (next_obj h)"
  "maps (snd (alloc_obj p h)) = maps h"
  "types (snd (alloc_obj p h)) = types h"
  "next_map (snd (alloc_obj p h)) = next_map h"
  "next_type (snd (alloc_obj p h)) = next_type h"
  by (simp_all add: alloc_obj_def)

lemma alloc_map_simps [simp]:
  "fst (alloc_map m h) = next_map h"
  "maps (snd (alloc_map m h)) = (maps h)(next_map h := m)"
  "next_map (snd (alloc_map m h)) = Suc (next_map h)"
  "objs (snd (alloc_map m h)) = objs h"
  "types (snd (alloc_map m h)) = types h"
  "next_obj (snd (alloc_map m h)) = next_obj h"
  "next_type (snd (alloc_map m h)) = next_type h"
  by (simp_all add: alloc_map_def)

section \<open>defineEnumValues\<close>

lemma defineEnumValues_frame:
  assumes "defineEnumValues m h = (l, h')"
  shows "maps h' = maps h" "types h' = types h" "next_map h' = next_map h"
        "next_type h' = next_type h" "next_obj h' = next_obj h + length m"
        "Object_keys l = Object_keys m"
  using assms
  by (induction m arbitrary: h l h';
      auto simp: alloc_obj_def Let_def split: prod.splits)+

lemma defineEnumValues_objs:
  assumes "defineEnumValues m h = (l, h')" "\<forall>(k, c) \<in> set m. c < next_obj h"
  shows "(\<forall>c < next_obj h. objs h' c = objs h c) \<and>
         (\<forall>(k, v) \<in> set l. next_obj h \<le> v \<and> v < next_obj h') \<and>
         map_values (objs h') l = map_values (\<lambda>a. defineEnumValue (objs h a)) m"
  using assms
proof (induction m arbitrary: h l h')
  case Nil
  then show ?case by simp
next
  case (Cons x m)
  obtain k c where x: "x = (k, c)" by (cases x)
  let ?h1 = "h\<lparr>objs := (objs h)(next_obj h := defineEnumValue (objs h c)), next_obj := Suc (next_obj h)\<rparr>"
  obtain l1 where rec: "defineEnumValues m ?h1 = (l1, h')" and l: "l = (k, next_obj h) # l1"
    using Cons.prems(1) by (auto simp: x alloc_obj_def Let_def split: prod.splits)
  have pre: "\<forall>(k, c) \<in> set m. c < next_obj ?h1"
    using Cons.prems(2) by auto
  note IH = Cons.IH[OF rec pre]
  have c: "c < next_obj h" using Cons.prems(2) by (simp add: x)
  have old: "\<forall>a < next_obj h. objs h' a = objs h a"
    using IH by auto
  have new: "objs h' (next_obj h) = defineEnumValue (objs h c)"
    using IH by auto
  have nx: "next_obj h < next_obj h'"
    using defineEnumValues_frame(5)[OF rec] by simp
  have eq: "map_values (\<lambda>a. defineEnumValue (objs ?h1 a)) m = map_values (\<lambda>a. defineEnumValue (objs h a)) m"
    using Cons.prems(2) by (intro map_values_cong) auto
  have "map_values (objs h') l1 = map_values (\<lambda>a. defineEnumValue (objs ?h1 a)) m"
    using IH by blast
  then have mv: "map_values (objs h') l1 = map_values (\<lambda>a. defineEnumValue (objs h a)) m"
    unfolding eq .
  have rng: "\<forall>(k, v) \<in> set l1. next_obj h \<le> v \<and> v < next_obj h'"
    using IH by auto
  show ?case
    using old new nx mv rng by (simp add: l x)
qed


section \<open>getFields\<close>

lemma getFields_spec:
  assumes wf: "wf_composer h etc" and gf: "getFields etc h = (l, h1)"
  shows "next_obj h \<le> next_obj h1" "next_map h \<le> next_map h1" "next_type h1 = next_type h"
    "\<forall>c < next_obj h. objs h1 c = objs h c" "\<forall>m < next_map h. maps h1 m = maps h m"
    "\<forall>t. t \<noteq> gqType etc \<longrightarrow> types h1 t = types h t"
    "types h1 (gqType etc) = (types h (gqType etc))\<lparr>nameLookup_cache := Some l\<rparr>"
    "l < next_map h1" "\<forall>(k, v) \<in> set (maps h1 l). v < next_obj h1"
    "entries h1 l = map_values defineEnumValue (storedFields h etc)"
proof -
  let ?t = "types h (gqType etc)"
  let ?s = "config_values (enumConfig ?t)"
  have s: "?s < next_map h" and sall: "\<forall>(k, c) \<in> set (maps h ?s). c < next_obj h"
    using wf by (auto simp: wf_composer_def wf_map_def Let_def)
  have "next_obj h \<le> next_obj h1 \<and> next_map h \<le> next_map h1 \<and> next_type h1 = next_type h \<and>
    (\<forall>c < next_obj h. objs h1 c = objs h c) \<and> (\<forall>m < next_map h. maps h1 m = maps h m) \<and>
    (\<forall>t. t \<noteq> gqType etc \<longrightarrow> types h1 t = types h t) \<and>
    types h1 (gqType etc) = (types h (gqType etc))\<lparr>nameLookup_cache := Some l\<rparr> \<and>
    l < next_map h1 \<and> (\<forall>(k, v) \<in> set (maps h1 l). v < next_obj h1) \<and>
    entries h1 l = map_values defineEnumValue (storedFields h etc)"
  proof (cases "nameLookup_cache ?t")
    case (Some l0)
    then have "l = l0" "h1 = h"
      using gf by (auto simp: getFields_def getNameLookup_def)
    moreover have "?t\<lparr>nameLookup_cache := Some l0\<rparr> = ?t"
      using Some by (cases ?t) simp
    ultimately show ?thesis
      using wf Some by (auto simp: wf_composer_def Let_def storedFields_def)
  next
    case None
    obtain vs ha where dv: "defineEnumValues (maps h ?s) h = (vs, ha)"
      by (cases "defineEnumValues (maps h ?s) h")
    note fr = defineEnumValues_frame[OF dv]
    note ob = defineEnumValues_objs[OF dv sall]
    have l: "l = next_map h" and h1: "h1 = ha\<lparr>maps := (maps h)(next_map h := vs), next_map := Suc (next_map h),
        types := (types h)(gqType etc := ?t\<lparr>nameLookup_cache := Some (next_map h)\<rparr>)\<rparr>"
      using gf None dv fr by (auto simp: getFields_def getNameLookup_def alloc_map_def Let_def)
    have ent: "entries h1 l = map_values defineEnumValue (storedFields h etc)"
      using ob by (simp add: entries_map_values storedFields_def l h1)
    show ?thesis
      using ob fr ent by (auto simp: l h1)
  qed
  then show "next_obj h \<le> next_obj h1" "next_map h \<le> next_map h1" "next_type h1 = next_type h"
    "\<forall>c < next_obj h. objs h1 c = objs h c" "\<forall>m < next_map h. maps h1 m = maps h m"
    "\<forall>t. t \<noteq> gqType etc \<longrightarrow> types h1 t = types h t"
    "types h1 (gqType etc) = (types h (gqType etc))\<lparr>nameLookup_cache := Some l\<rparr>"
    "l < next_map h1" "\<forall>(k, v) \<in> set (maps h1 l). v < next_obj h1"
    "entries h1 l = map_values defineEnumValue (storedFields h etc)"
    by blast+
qed

lemma getFields_stored:
  assumes wf: "wf_composer h etc" and gf: "getFields etc h = (l, h1)"
  shows "config_values (enumConfig (types h1 (gqType etc))) = config_values (enumConfig (types h (gqType etc)))"
    "storedFields h1 etc = storedFields h etc" "wf_composer h1 etc"
proof -
  note g = getFields_spec[OF wf gf]
  let ?s = "config_values (enumConfig (types h (gqType etc)))"
  show cv: "config_values (enumConfig (types h1 (gqType etc))) = ?s"
    using g(7) by simp
  have s: "?s < next_map h" and sall: "\<forall>(k, c) \<in> set (maps h ?s). c < next_obj h"
    using wf by (auto simp: wf_composer_def wf_map_def Let_def)
  have ms: "maps h1 ?s = maps h ?s" using g(5) s by simp
  have en: "entries h1 ?s = entries h ?s"
    unfolding entries_map_values ms using sall g(4) by (intro map_values_cong) auto
  show st: "storedFields h1 etc = storedFields h etc"
    by (simp add: storedFields_def cv en)
  have nm: "\<forall>(k, c) \<in> set (maps h ?s). map_of (objs h1 c) ''isDeprecated'' = None"
    using wf sall g(4) by (fastforce simp: wf_composer_def Let_def)
  have al: "\<forall>(k, c) \<in> set (maps h ?s). c < next_obj h1"
    using sall g(1) by fastforce
  have ds: "distinct (Object_keys (maps h ?s))"
    using wf by (simp add: wf_composer_def wf_map_def Let_def)
  have ch: "entries h1 l = map_values defineEnumValue (entries h1 ?s)"
    using g(10) by (simp add: storedFields_def en)
  have ty: "gqType etc < next_type h1"
    using wf g(3) by (simp add: wf_composer_def Let_def)
  show "wf_composer h1 etc"
    using nm al ds ch s g(2,8,9) ty
    by (simp add: wf_composer_def Let_def cv g(7) wf_map_def ms)
qed


section \<open>setFields\<close>

lemma objs_cleanup:
  "objs (cleanup_isDeprecated vs h) c =
     (if c \<in> snd ` set vs then delete_isDeprecated (objs h c) else objs h c)"
proof (induction vs arbitrary: h)
  case Nil
  then show ?case by (simp add: cleanup_isDeprecated_def)
next
  case (Cons x xs)
  obtain k a where x: "x = (k, a)" by (cases x)
  have step: "cleanup_isDeprecated (x # xs) h =
      cleanup_isDeprecated xs (h\<lparr>objs := (objs h)(a := delete_isDeprecated (objs h a))\<rparr>)"
    by (simp add: cleanup_isDeprecated_def x)
  show ?case
    unfolding step Cons.IH
    by (auto simp: x delete_isDeprecated_def AList.delete_idem)
qed

lemma cleanup_other [simp]:
  "maps (cleanup_isDeprecated vs h) = maps h"
  "types (cleanup_isDeprecated vs h) = types h"
  "next_obj (cleanup_isDeprecated vs h) = next_obj h"
  "next_map (cleanup_isDeprecated vs h) = next_map h"
  "next_type (cleanup_isDeprecated vs h) = next_type h"
  by (induction vs arbitrary: h; simp add: cleanup_isDeprecated_def split_def)+

lemma setFields_frame [simp]:
  "maps (setFields m etc h) = maps h"
  "next_obj (setFields m etc h) = next_obj h"
  "next_map (setFields m etc h) = next_map h"
  "next_type (setFields m etc h) = next_type h"
  "config_values (enumConfig (types (setFields m etc h) (gqType etc))) = m"
  "nameLookup_cache (types (setFields m etc h) (gqType etc)) = None"
  "type_name (types (setFields m etc h) (gqType etc)) = type_name (types h (gqType etc))"
  "type_description (types (setFields m etc h) (gqType etc)) = type_description (types h (gqType etc))"
  "config_name (enumConfig (types (setFields m etc h) (gqType etc))) = config_name (enumConfig (types h (gqType etc)))"
  "config_description (enumConfig (types (setFields m etc h) (gqType etc))) = config_description (enumConfig (types h (gqType etc)))"
  by (simp_all add: setFields_def Let_def)

lemma setFields_types_other:
  "t \<noteq> gqType etc \<Longrightarrow> types (setFields m etc h) t = types h t"
  by (simp add: setFields_def Let_def)

lemma setFields_objs:
  "objs (setFields m etc h) c =
     (if c \<in> snd ` set (maps h m) then delete_isDeprecated (objs h c) else objs h c)"
  by (simp add: setFields_def Let_def objs_cleanup)

lemma setFields_entries:
  "entries (setFields m etc h) m = map_values delete_isDeprecated (entries h m)"
  unfolding entries_map_values map_values_map_values setFields_frame
  by (intro map_values_cong) (simp add: setFields_objs)

lemma setFields_stored:
  "storedFields (setFields m etc h) etc = map_values delete_isDeprecated (entries h m)"
  by (simp add: storedFields_def setFields_entries)

lemma wf_composer_type: "wf_composer h etc \<Longrightarrow> gqType etc < next_type h"
  by (simp add: wf_composer_def Let_def)

lemma setFields_wf:
  assumes "wf_map h m" "gqType etc < next_type h"
  shows "wf_composer (setFields m etc h) etc"
proof -
  have "\<forall>(k, c) \<in> set (maps h m). map_of (objs (setFields m etc h) c) ''isDeprecated'' = None"
    by (force simp: setFields_objs)
  then show ?thesis
    using assms by (simp add: wf_composer_def wf_map_def Let_def)
qed

lemma setFields_strip:
  "delete_isDeprecated (objs (setFields m etc h) c) = delete_isDeprecated (objs h c)"
  by (simp add: setFields_objs)

section \<open>spread\<close>

lemma spread_simps [simp]:
  "spread a [] = a"
  "spread a ((k, v) # b) = spread (AList.update k v a) b"
  by (simp_all add: spread_def)

lemma distinct_spread: "distinct (Object_keys a) \<Longrightarrow> distinct (Object_keys (spread a b))"
  by (induction b arbitrary: a) (auto simp: AList.distinct_update)

lemma keys_spread: "fst ` set (spread a b) = fst ` set a \<union> fst ` set b"
proof (induction b arbitrary: a)
  case Nil
  then show ?case by simp
next
  case (Cons x b)
  obtain k v where x: "x = (k, v)" by (cases x)
  have "fst ` set (spread a (x # b)) = fst ` set (AList.update k v a) \<union> fst ` set b"
    by (simp add: x Cons.IH)
  then show ?case
    by (simp add: x AList.dom_update)
qed

lemma values_spread: "snd ` set (spread a b) \<subseteq> snd ` set a \<union> snd ` set b"
proof (induction b arbitrary: a)
  case Nil
  then show ?case by simp
next
  case (Cons x b)
  obtain k v where x: "x = (k, v)" by (cases x)
  have "snd ` set (AList.update k v a) \<subseteq> insert v (snd ` set a)"
    by (induction a) auto
  with Cons.IH[of "AList.update k v a"] show ?case
    by (auto simp: x)
qed

lemma update_commute_present:
  "k \<noteq> k' \<Longrightarrow> k \<in> set (Object_keys a) \<Longrightarrow>
   AList.update k v (AList.update k' v' a) = AList.update k' v' (AList.update k v a)"
  by (induction a) auto

lemma update_spread_present:
  "k \<notin> set (Object_keys b) \<Longrightarrow> k \<in> set (Object_keys a) \<Longrightarrow>
   AList.update k v (spread a b) = spread (AList.update k v a) b"
proof (induction b arbitrary: a)
  case Nil
  then show ?case by simp
next
  case (Cons x b)
  obtain k' v' where x: "x = (k', v')" by (cases x)
  have ne: "k \<noteq> k'" and nb: "k \<notin> set (Object_keys b)"
    using Cons.prems(1) by (auto simp: x)
  have "k \<in> set (Object_keys (AList.update k' v' a))"
    using Cons.prems(2) by (simp add: AList.update_keys)
  from Cons.IH[OF nb this]
  have "AList.update k v (spread (AList.update k' v' a) b) =
        spread (AList.update k v (AList.update k' v' a)) b" .
  also have "AList.update k v (AList.update k' v' a) = AList.update k' v' (AList.update k v a)"
    using ne Cons.prems(2) by (rule update_commute_present)
  finally show ?case by (simp add: x)
qed

lemma spread_update_right:
  "distinct (Object_keys b) \<Longrightarrow> spread a (AList.update k v b) = AList.update k v (spread a b)"
proof (induction b arbitrary: a)
  case Nil
  then show ?case by simp
next
  case (Cons x b)
  obtain k' v' where x: "x = (k', v')" by (cases x)
  show ?case
  proof (cases "k' = k")
    case True
    have nb: "k \<notin> set (Object_keys b)" using Cons.prems by (auto simp: x True)
    have "k \<in> set (Object_keys (AList.update k v' a))" by (simp add: AList.update_keys)
    from update_spread_present[OF nb this, of v] show ?thesis
      by (simp add: x True AList.update_last)
  next
    case False
    then show ?thesis using Cons by (simp add: x)
  qed
qed

lemma spread_assoc:
  "distinct (Object_keys a) \<Longrightarrow> spread (spread e a) b = spread e (spread a b)"
proof (induction b arbitrary: a)
  case Nil
  then show ?case by simp
next
  case (Cons x b)
  obtain k v where x: "x = (k, v)" by (cases x)
  have "spread (spread e a) (x # b) = spread (spread e (AList.update k v a)) b"
    using Cons.prems by (simp add: x spread_update_right)
  also have "\<dots> = spread e (spread (AList.update k v a) b)"
    using Cons.prems by (intro Cons.IH) (simp add: AList.distinct_update)
  finally show ?case by (simp add: x)
qed

section \<open>addFields\<close>

lemma alloc_map_wf_composer:
  assumes "wf_composer h etc"
  shows "wf_composer (snd (alloc_map m h)) etc"
    and "storedFields (snd (alloc_map m h)) etc = storedFields h etc"
  using assms
  by (auto simp: wf_composer_def wf_map_def Let_def alloc_map_def entries_def storedFields_def
           split: option.splits)

lemma addFields_spec:
  assumes wf: "wf_composer h etc" and a: "wf_map h a"
  shows "storedFields (addFields a etc h) etc =
           spread (storedFields h etc) (map_values delete_isDeprecated (entries h a))"
    and "wf_composer (addFields a etc h) etc"
    and "next_obj h \<le> next_obj (addFields a etc h)"
    and "next_map h \<le> next_map (addFields a etc h)"
    and "next_type (addFields a etc h) = next_type h"
    and "\<forall>m < next_map h. maps (addFields a etc h) m = maps h m"
    and "\<forall>c < next_obj h. delete_isDeprecated (objs (addFields a etc h) c) = delete_isDeprecated (objs h c)"
    and "\<forall>t. t \<noteq> gqType etc \<longrightarrow> types (addFields a etc h) t = types h t"
    and "type_name (types (addFields a etc h) (gqType etc)) = type_name (types h (gqType etc))"
proof -
  obtain l h1 where gf: "getFields etc h = (l, h1)" by (cases "getFields etc h")
  note g = getFields_spec[OF wf gf]
  let ?new = "spread (maps h1 l) (maps h1 a)"
  let ?n = "next_map h1"
  let ?h2 = "h1\<lparr>maps := (maps h1)(?n := ?new), next_map := Suc ?n\<rparr>"
  have af: "addFields a etc h = setFields ?n etc ?h2"
    by (simp add: addFields_def gf alloc_map_def Let_def)
  have am: "a < next_map h" "maps h1 a = maps h a" and aall: "\<forall>(k, c) \<in> set (maps h a). c < next_obj h"
    using a g(5) by (auto simp: wf_map_def)
  have ea: "entries h1 a = entries h a"
    unfolding entries_map_values am(2) using aall g(4) by (intro map_values_cong) auto
  have dl: "distinct (Object_keys (maps h1 l))"
  proof -
    have "Object_keys (maps h1 l) = Object_keys (entries h1 l)" by (simp add: entries_map_values)
    also have "\<dots> = Object_keys (storedFields h etc)" by (simp add: g(10))
    finally show ?thesis using wf
      by (simp add: storedFields_def entries_map_values wf_composer_def wf_map_def Let_def)
  qed
  have stored_clean: "map_values delete_isDeprecated (storedFields h etc) = storedFields h etc"
    using wf unfolding storedFields_def entries_map_values map_values_map_values
    by (intro map_values_cong) (auto simp: wf_composer_def Let_def delete_isDeprecated_none)
  have "storedFields (addFields a etc h) etc = map_values delete_isDeprecated (entries ?h2 ?n)"
    by (simp add: af setFields_stored)
  also have "entries ?h2 ?n = spread (entries h1 l) (entries h1 a)"
    by (simp add: entries_map_values map_values_spread)
  also have "map_values delete_isDeprecated \<dots> =
      spread (map_values delete_isDeprecated (entries h1 l)) (map_values delete_isDeprecated (entries h a))"
    by (simp add: map_values_spread ea)
  also have "map_values delete_isDeprecated (entries h1 l) = storedFields h etc"
    using stored_clean by (simp add: g(10))
  finally show "storedFields (addFields a etc h) etc =
           spread (storedFields h etc) (map_values delete_isDeprecated (entries h a))" .
  have "wf_map ?h2 ?n"
  proof -
    have "\<forall>(k, c) \<in> set ?new. c < next_obj h1"
      using values_spread[of "maps h1 l" "maps h1 a"] g(9) aall g(1) am(2) by fastforce
    then show ?thesis using dl by (simp add: wf_map_def distinct_spread)
  qed
  then show "wf_composer (addFields a etc h) etc"
    unfolding af using wf_composer_type[OF wf] g(3) by (intro setFields_wf) simp_all
  show "next_obj h \<le> next_obj (addFields a etc h)" "next_map h \<le> next_map (addFields a etc h)"
    "next_type (addFields a etc h) = next_type h"
    using g(1,2,3) by (simp_all add: af)
  show "\<forall>m < next_map h. maps (addFields a etc h) m = maps h m"
    using g(2,5) by (simp add: af)
  show "\<forall>c < next_obj h. delete_isDeprecated (objs (addFields a etc h) c) = delete_isDeprecated (objs h c)"
    using g(4) by (simp add: af setFields_strip)
  show "\<forall>t. t \<noteq> gqType etc \<longrightarrow> types (addFields a etc h) t = types h t"
    using g(6) by (simp add: af setFields_types_other)
  show "type_name (types (addFields a etc h) (gqType etc)) = type_name (types h (gqType etc))"
    using g(7) by (simp add: af)
qed


lemma readFields_stored:
  "wf_composer h etc \<Longrightarrow> readFields h etc = map_values defineEnumValue (storedFields h etc)"
  by (cases "getFields etc h") (simp add: readFields_def getFields_spec(10))

lemma map_of_spread:
  "distinct (Object_keys b) \<Longrightarrow> map_of (spread a b) = map_of a ++ map_of b"
proof (induction b arbitrary: a)
  case Nil
  then show ?case by simp
next
  case (Cons x b)
  obtain k v where x: "x = (k, v)" by (cases x)
  have nb: "k \<notin> dom (map_of b)" and db: "distinct (Object_keys b)"
    using Cons.prems by (auto simp: x dom_map_of_conv_image_fst)
  have "map_of (spread a (x # b)) = map_of (AList.update k v a) ++ map_of b"
    by (simp add: x Cons.IH[OF db])
  also have "\<dots> = (map_of a)(k \<mapsto> v) ++ map_of b"
    by (simp only: AList.update_conv')
  also have "\<dots> = (map_of a ++ map_of b)(k \<mapsto> v)"
    using nb by (rule map_add_upd_left)
  finally have L: "map_of (spread a (x # b)) = (map_of a ++ map_of b)(k \<mapsto> v)" .
  have R: "map_of a ++ map_of (x # b) = (map_of a ++ map_of b)(k \<mapsto> v)"
    unfolding x by simp
  show ?case unfolding L R ..
qed

lemma fst_set_map_values [simp]: "fst ` set (map_values f xs) = fst ` set xs"
  using keys_map_values[of f xs] by (metis set_map)

lemma wf_map_after_addFields:
  assumes wf: "wf_composer h etc" and a: "wf_map h a" and b: "wf_map h b"
  shows "wf_map (addFields a etc h) b"
    and "map_values delete_isDeprecated (entries (addFields a etc h) b) =
         map_values delete_isDeprecated (entries h b)"
proof -
  note af = addFields_spec[OF wf a]
  have bm: "b < next_map h" and ball: "\<forall>(k, c) \<in> set (maps h b). c < next_obj h"
    using b by (auto simp: wf_map_def)
  have mb: "maps (addFields a etc h) b = maps h b" using af(6) bm by simp
  show "wf_map (addFields a etc h) b"
    using b af(3,4) by (fastforce simp: wf_map_def mb)
  show "map_values delete_isDeprecated (entries (addFields a etc h) b) =
         map_values delete_isDeprecated (entries h b)"
    unfolding entries_map_values map_values_map_values mb
    using ball af(7) by (intro map_values_cong) auto
qed

section \<open>Read accessors\<close>

lemma stored_clean:
  assumes wf: "wf_composer h etc"
  shows "map_values delete_isDeprecated (storedFields h etc) = storedFields h etc"
  using wf unfolding storedFields_def entries_map_values map_values_map_values
  by (intro map_values_cong) (auto simp: wf_composer_def Let_def delete_isDeprecated_none)

lemma stored_distinct:
  "wf_composer h etc \<Longrightarrow> distinct (Object_keys (storedFields h etc))"
  by (simp add: storedFields_def entries_map_values wf_composer_def wf_map_def Let_def)

lemma getFields_keys:
  assumes wf: "wf_composer h etc" and gf: "getFields etc h = (l, h1)"
  shows "Object_keys (maps h1 l) = Object_keys (storedFields h etc)"
proof -
  have "Object_keys (maps h1 l) = Object_keys (entries h1 l)" by (simp add: entries_map_values)
  then show ?thesis by (simp add: getFields_spec(10)[OF wf gf])
qed

lemma getFieldNames_stored:
  assumes wf: "wf_composer h etc"
  shows "fst (getFieldNames etc h) = Object_keys (storedFields h etc)"
    and "snd (getFieldNames etc h) = snd (getFields etc h)"
  using getFields_keys[OF wf, of "fst (getFields etc h)" "snd (getFields etc h)"]
  by (simp_all add: getFieldNames_def split_def)

lemma hasField_stored:
  assumes wf: "wf_composer h etc"
  shows "fst (hasField x etc h) = (x \<in> set (Object_keys (storedFields h etc)))"
proof -
  obtain l h1 where gf: "getFields etc h = (l, h1)" by (cases "getFields etc h")
  have "(map_of (maps h1 l) x \<noteq> None) = (x \<in> set (Object_keys (maps h1 l)))"
    by (simp add: map_of_eq_None_iff)
  then show ?thesis
    by (simp add: hasField_def gf getFields_keys[OF wf gf])
qed

section \<open>removeField\<close>

lemma fold_delete:
  "fold AList.delete ns xs = filter (\<lambda>(k, v). k \<notin> set ns) xs"
proof (induction ns arbitrary: xs)
  case Nil
  then show ?case by simp
next
  case (Cons n ns)
  have "filter (\<lambda>(k, v). k \<notin> set ns) (AList.delete n xs) = filter (\<lambda>(k, v). k \<notin> set (n # ns)) xs"
    by (induction xs) (auto simp: AList.delete_eq)
  then show ?case by (simp add: Cons.IH)
qed

lemma map_values_filter:
  "map_values f (filter (\<lambda>(k, v). P k) xs) = filter (\<lambda>(k, v). P k) (map_values f xs)"
  by (induction xs) auto

lemma removeField_spec:
  fixes nameOrArray :: "string one_or_array"
  assumes wf: "wf_composer h etc"
  defines "valueNames \<equiv> as_array nameOrArray"
  shows "storedFields (removeField nameOrArray etc h) etc =
           filter (\<lambda>(k, v). k \<notin> set valueNames) (storedFields h etc)"
    and "wf_composer (removeField nameOrArray etc h) etc"
proof -
  obtain l h1 where gf: "getFields etc h = (l, h1)" by (cases "getFields etc h")
  note g = getFields_spec[OF wf gf]
  let ?rest = "filter (\<lambda>(k, v). k \<notin> set valueNames) (maps h1 l)"
  let ?n = "next_map h1"
  let ?h3 = "h1\<lparr>maps := (maps h1)(l := ?rest, ?n := ?rest), next_map := Suc ?n\<rparr>"
  have rf: "removeField nameOrArray etc h = setFields ?n etc ?h3"
    by (simp add: removeField_def gf alloc_map_def Let_def fold_delete valueNames_def)
  have "entries ?h3 ?n = filter (\<lambda>(k, v). k \<notin> set valueNames) (entries h1 l)"
    by (simp add: entries_map_values map_values_filter)
  then show "storedFields (removeField nameOrArray etc h) etc =
           filter (\<lambda>(k, v). k \<notin> set valueNames) (storedFields h etc)"
    by (simp add: rf setFields_stored map_values_filter g(10) stored_clean[OF wf])
  have "distinct (Object_keys (maps h1 l))"
    using stored_distinct[OF wf] by (simp add: getFields_keys[OF wf gf])
  then have "distinct (Object_keys ?rest)"
    by (rule distinct_map_filter)
  moreover have "\<forall>(k, c) \<in> set ?rest. c < next_obj h1"
    using g(9) by auto
  ultimately have "wf_map ?h3 ?n"
    by (simp add: wf_map_def)
  then show "wf_composer (removeField nameOrArray etc h) etc"
    unfolding rf using wf_composer_type[OF wf] g(3) by (intro setFields_wf) simp_all
qed

section \<open>reorderFields\<close>

lemma pick_simps [simp]:
  "pick [] xs = []"
  "pick (n # ns) xs = (case map_of xs n of None \<Rightarrow> pick ns xs | Some v \<Rightarrow> (n, v) # pick ns xs)"
  by (simp_all add: pick_def List.map_filter_simps split: option.splits)

lemma keys_pick: "Object_keys (pick ns xs) = filter (\<lambda>n. n \<in> set (Object_keys xs)) ns"
  by (induction ns) (force simp: map_of_eq_None_iff split: option.splits dest: map_of_SomeD)+

lemma map_values_pick: "map_values f (pick ns xs) = pick ns (map_values f xs)"
  by (induction ns) (auto simp: map_of_map_values split: option.splits)

lemma pick_delete: "n \<notin> set ns \<Longrightarrow> pick ns (AList.delete n xs) = pick ns xs"
  by (induction ns) (auto simp: AList.delete_conv' split: option.splits)

lemma update_new: "k \<notin> set (Object_keys a) \<Longrightarrow> AList.update k v a = a @ [(k, v)]"
  by (induction a) auto

lemma spread_append:
  "distinct (Object_keys b) \<Longrightarrow> set (Object_keys a) \<inter> set (Object_keys b) = {} \<Longrightarrow>
   spread a b = a @ b"
proof (induction b arbitrary: a)
  case Nil
  then show ?case by simp
next
  case (Cons x b)
  obtain k v where x: "x = (k, v)" by (cases x)
  have ka: "k \<notin> set (Object_keys a)" using Cons.prems(2) by (auto simp: x)
  have "spread (a @ [(k, v)]) b = (a @ [(k, v)]) @ b"
    using Cons.prems by (intro Cons.IH) (auto simp: x)
  then show ?case by (simp add: x update_new[OF ka])
qed

lemma reorder_loop_eq:
  "distinct names \<Longrightarrow> set names \<inter> set (Object_keys ord) = {} \<Longrightarrow>
   reorder_loop names ord flds =
     (ord @ pick names flds, filter (\<lambda>(k, v). k \<notin> set names) flds)"
proof (induction names arbitrary: ord flds)
  case Nil
  then show ?case by simp
next
  case (Cons n ns)
  have nn: "n \<notin> set ns" and dn: "distinct ns" and no: "n \<notin> set (Object_keys ord)"
    and nso: "set ns \<inter> set (Object_keys ord) = {}"
    using Cons.prems by auto
  show ?case
  proof (cases "map_of flds n")
    case None
    then have "n \<notin> fst ` set flds" by (simp add: map_of_eq_None_iff)
    then have "filter (\<lambda>(k, v). k \<notin> set (n # ns)) flds = filter (\<lambda>(k, v). k \<notin> set ns) flds"
      by (intro filter_cong) force+
    then show ?thesis using None Cons.IH[OF dn nso] by simp
  next
    case (Some v)
    have pre: "set ns \<inter> set (Object_keys (ord @ [(n, v)])) = {}"
      using nso nn by auto
    have f: "filter (\<lambda>(k, v). k \<notin> set ns) (AList.delete n flds) = filter (\<lambda>(k, v). k \<notin> set (n # ns)) flds"
      by (induction flds) (auto simp: AList.delete_eq)
    show ?thesis
      using Some Cons.IH[OF dn pre, of "AList.delete n flds"]
      by (simp add: update_new[OF no] pick_delete[OF nn] f)
  qed
qed

lemma reorderFields_spec:
  assumes wf: "wf_composer h etc" and dn: "distinct names"
  shows "storedFields (reorderFields names etc h) etc =
           pick names (storedFields h etc) @ filter (\<lambda>(k, v). k \<notin> set names) (storedFields h etc)"
    and "wf_composer (reorderFields names etc h) etc"
proof -
  obtain l h1 where gf: "getFields etc h = (l, h1)" by (cases "getFields etc h")
  note g = getFields_spec[OF wf gf]
  let ?ord = "pick names (maps h1 l)"
  let ?rest = "filter (\<lambda>(k, v). k \<notin> set names) (maps h1 l)"
  let ?n = "next_map h1"
  let ?h3 = "h1\<lparr>maps := (maps h1)(l := ?rest, ?n := ?ord @ ?rest), next_map := Suc ?n\<rparr>"
  have dl: "distinct (Object_keys (maps h1 l))"
    using stored_distinct[OF wf] by (simp add: getFields_keys[OF wf gf])
  have dr: "distinct (Object_keys ?rest)"
    using dl by (rule distinct_map_filter)
  have disj: "set (Object_keys ?ord) \<inter> set (Object_keys ?rest) = {}"
    by (auto simp: keys_pick)
  have rl: "reorder_loop names [] (maps h1 l) = (?ord, ?rest)"
    using reorder_loop_eq[OF dn, of "[]" "maps h1 l"] by simp
  have rf: "reorderFields names etc h = setFields ?n etc ?h3"
    by (simp add: reorderFields_def gf alloc_map_def Let_def rl spread_append[OF dr disj])
  have "entries ?h3 ?n = pick names (entries h1 l) @ filter (\<lambda>(k, v). k \<notin> set names) (entries h1 l)"
    by (simp add: entries_map_values map_values_filter map_values_pick)
  then show "storedFields (reorderFields names etc h) etc =
           pick names (storedFields h etc) @ filter (\<lambda>(k, v). k \<notin> set names) (storedFields h etc)"
    by (simp add: rf setFields_stored map_values_filter map_values_pick g(10) stored_clean[OF wf])
  have "distinct (Object_keys (?ord @ ?rest))"
    using dr disj dn by (simp add: keys_pick)
  moreover have "set (pick names (maps h1 l)) \<subseteq> set (maps h1 l)"
    by (induction names) (auto split: option.splits dest: map_of_SomeD)
  then have "\<forall>(k, c) \<in> set (?ord @ ?rest). c < next_obj h1"
    using g(9) by auto
  ultimately have "wf_map ?h3 ?n"
    by (simp add: wf_map_def)
  then show "wf_composer (reorderFields names etc h) etc"
    unfolding rf using wf_composer_type[OF wf] g(3) by (intro setFields_wf) simp_all
qed


section \<open>extendField\<close>

lemma delete_spread:
  "AList.delete k (spread a b) = spread (AList.delete k a) (AList.delete k b)"
proof (induction b arbitrary: a)
  case Nil
  then show ?case by simp
next
  case (Cons x b)
  obtain k' v' where x: "x = (k', v')" by (cases x)
  show ?case
  proof (cases "k' = k")
    case True
    then show ?thesis by (simp add: x Cons.IH AList.delete_update_same)
  next
    case False
    then have "AList.delete k (AList.update k' v' a) = AList.update k' v' (AList.delete k a)"
      by (intro AList.delete_update) simp
    with False show ?thesis by (simp add: x Cons.IH)
  qed
qed

lemma alloc_obj_wf_composer:
  assumes "wf_composer h etc"
  shows "wf_composer (snd (alloc_obj p h)) etc"
    and "storedFields (snd (alloc_obj p h)) etc = storedFields h etc"
proof -
  let ?s = "config_values (enumConfig (types h (gqType etc)))"
  have sall: "\<forall>(k, c) \<in> set (maps h ?s). c \<noteq> next_obj h"
    using assms by (fastforce simp: wf_composer_def wf_map_def Let_def)
  have e: "\<And>m. \<forall>(k, c) \<in> set (maps h m). c < next_obj h \<Longrightarrow>
      entries (snd (alloc_obj p h)) m = entries h m"
    unfolding entries_map_values alloc_obj_simps
    by (intro map_values_cong) auto
  have es: "entries (snd (alloc_obj p h)) ?s = entries h ?s"
    using assms by (intro e) (simp add: wf_composer_def wf_map_def Let_def)
  show "storedFields (snd (alloc_obj p h)) etc = storedFields h etc"
    using es by (simp add: storedFields_def alloc_obj_def)
  have ms: "\<forall>(k, c) \<in> set (maps h ?s). map_of (objs (snd (alloc_obj p h)) c) ''isDeprecated'' = None"
    using assms sall by (fastforce simp: wf_composer_def Let_def alloc_obj_def)
  have al: "\<forall>(k, c) \<in> set (maps h ?s). c < Suc (next_obj h)"
    using assms by (fastforce simp: wf_composer_def wf_map_def Let_def)
  show "wf_composer (snd (alloc_obj p h)) etc"
  proof (cases "nameLookup_cache (types h (gqType etc))")
    case None
    then show ?thesis
      using assms al ms by (simp add: wf_composer_def wf_map_def Let_def alloc_obj_def)
  next
    case (Some l)
    have lall: "\<forall>(k, c) \<in> set (maps h l). c < next_obj h" and
      ch: "entries h l = map_values defineEnumValue (entries h ?s)" and ln: "l < next_map h"
      using assms Some by (auto simp: wf_composer_def Let_def)
    have "entries (snd (alloc_obj p h)) l = entries h l" using lall by (rule e)
    moreover have "\<forall>(k, c) \<in> set (maps h l). c < Suc (next_obj h)"
      using lall by fastforce
    ultimately show ?thesis
      using assms al ms Some es ch ln
      by (simp add: wf_composer_def wf_map_def Let_def)
  qed
qed

lemma getFields_type_name:
  assumes wf: "wf_composer h etc" and gf: "getFields etc h = (l, h1)"
  shows "getTypeName etc h1 = getTypeName etc h"
  by (simp add: getTypeName_def getFields_spec(7)[OF wf gf])

lemma update_map_entry:
  "map_of xs k = Some p \<Longrightarrow> AList.update k (g p) xs = AList.map_entry k g xs"
  by (induction xs) (auto split: if_splits)

lemma extendField_missing:
  assumes wf: "wf_composer h etc" and nm: "name \<notin> set (Object_keys (storedFields h etc))"
  shows "extendField name partial etc h =
     (Inl (Error (''Cannot extend value '' @ quoted name @ '' from enum ''
                  @ quoted (getTypeName etc h) @ ''. Value does not exist.'')), snd (getFields etc h))"
proof -
  obtain l h1 where gf: "getFields etc h = (l, h1)" by (cases "getFields etc h")
  have "name \<notin> set (Object_keys (maps h1 l))"
    using nm by (simp add: getFields_keys[OF wf gf])
  then have "map_of (maps h1 l) name = None"
    by (simp add: map_of_eq_None_iff)
  then show ?thesis
    by (simp add: extendField_def getField_def gf getFields_type_name[OF wf gf])
qed

lemma extendField_present:
  assumes wf: "wf_composer h etc" and p: "map_of (storedFields h etc) name = Some p"
  shows "fst (extendField name partial etc h) = Inr ()"
    and "storedFields (snd (extendField name partial etc h)) etc =
           AList.map_entry name (\<lambda>p. spread p (delete_isDeprecated partial)) (storedFields h etc)"
    and "wf_composer (snd (extendField name partial etc h)) etc"
    and "getTypeName etc (snd (extendField name partial etc h)) = getTypeName etc h"
proof -
  obtain l h1 where gf: "getFields etc h = (l, h1)" by (cases "getFields etc h")
  note g = getFields_spec[OF wf gf]
  note g' = getFields_stored[OF wf gf]
  have "map_of (entries h1 l) name = Some (defineEnumValue p)"
    by (simp add: g(10) map_of_map_values p)
  then obtain v where v: "map_of (maps h1 l) name = Some v" and ov: "objs h1 v = defineEnumValue p"
    by (auto simp: entries_map_values map_of_map_values)
  let ?new = "spread (defineEnumValue p) partial"
  let ?h2 = "snd (alloc_obj ?new h1)"
  let ?o = "next_obj h1"
  let ?nm = "next_map ?h2"
  let ?h3 = "snd (alloc_map [(name, ?o)] ?h2)"
  have ef: "extendField name partial etc h = (Inr (), addFields ?nm etc ?h3)"
    by (simp add: extendField_def getField_def gf v ov alloc_obj_def setField_def alloc_map_def Let_def)
  have wf2: "wf_composer ?h2 etc" and st2: "storedFields ?h2 etc = storedFields h etc"
    using alloc_obj_wf_composer[OF g'(3), of ?new] g'(2) by simp_all
  have wf3: "wf_composer ?h3 etc" and st3: "storedFields ?h3 etc = storedFields h etc"
    using alloc_map_wf_composer[OF wf2, of "[(name, ?o)]"] st2 by simp_all
  have wm: "wf_map ?h3 ?nm"
    by (simp add: wf_map_def alloc_map_def alloc_obj_def)
  note af = addFields_spec[OF wf3 wm]
  have en: "entries ?h3 ?nm = [(name, ?new)]"
    by (simp add: entries_map_values alloc_map_def alloc_obj_def)
  have cl: "delete_isDeprecated p = p"
    using stored_clean[OF wf] p
    by (metis map_of_map_values option.inject option.simps(9))
  have dn: "delete_isDeprecated ?new = spread p (delete_isDeprecated partial)"
    using delete_spread[of "''isDeprecated''" "defineEnumValue p" partial]
      delete_defineEnumValue[of p]
    by (simp add: delete_isDeprecated_def cl[unfolded delete_isDeprecated_def])
  have "storedFields (addFields ?nm etc ?h3) etc =
      spread (storedFields ?h3 etc) (map_values delete_isDeprecated (entries ?h3 ?nm))"
    by (rule af(1))
  also have "\<dots> = AList.update name (delete_isDeprecated ?new) (storedFields h etc)"
    unfolding en st3 by simp
  also have "\<dots> = AList.update name (spread p (delete_isDeprecated partial)) (storedFields h etc)"
    unfolding dn ..
  also have "\<dots> = AList.map_entry name (\<lambda>p. spread p (delete_isDeprecated partial)) (storedFields h etc)"
    using p by (rule update_map_entry)
  finally show "storedFields (snd (extendField name partial etc h)) etc =
           AList.map_entry name (\<lambda>p. spread p (delete_isDeprecated partial)) (storedFields h etc)"
    by (simp add: ef)
  show "fst (extendField name partial etc h) = Inr ()" by (simp add: ef)
  show "wf_composer (snd (extendField name partial etc h)) etc"
    using af(2) by (simp add: ef)
  have "type_name (types ?h3 (gqType etc)) = type_name (types h (gqType etc))"
    by (simp add: alloc_map_def alloc_obj_def g(7))
  then show "getTypeName etc (snd (extendField name partial etc h)) = getTypeName etc h"
    using af(9) by (simp add: ef getTypeName_def)
qed


section \<open>deprecateFields\<close>

lemma forEach_append:
  "forEach g (xs @ ys) h =
     (case forEach g xs h of (Inl e, h1) \<Rightarrow> (Inl e, h1) | (Inr u, h1) \<Rightarrow> forEach g ys h1)"
  by (induction xs arbitrary: h) (auto split: prod.splits sum.splits)

lemma forEach_map: "forEach g (map f xs) h = forEach (\<lambda>x. g (f x)) xs h"
  by (induction xs arbitrary: h) (auto split: prod.splits sum.splits)

lemma forEach_single: "forEach g [x] h = g x h"
  by (cases "g x h") (auto split: sum.splits)

lemma deprecateFields_loop:
  "deprecateFields flds etc h =
     forEach (\<lambda>(field, reason). deprecate_one (fst (getFieldNames etc h)) field reason etc)
             (deprecate_targets flds) (snd (getFieldNames etc h))"
  by (cases flds)
     (simp_all add: deprecateFields_def deprecate_targets_def split_def Let_def forEach_single
        forEach_map del: forEach.simps)

lemma keys_map_entry [simp]: "Object_keys (AList.map_entry k g xs) = Object_keys xs"
  by (induction xs) auto

lemma map_of_map_entry:
  "map_of (AList.map_entry k g xs) k' =
     (if k' = k then map_option g (map_of xs k) else map_of xs k')"
  by (induction xs) auto

lemma deprecate_one_present:
  assumes wf: "wf_composer h etc" and ks: "Object_keys (storedFields h etc) = names"
    and f: "field \<in> set names"
  shows "fst (deprecate_one names field reason etc h) = Inr ()"
    and "storedFields (snd (deprecate_one names field reason etc h)) etc =
           deprecate_entry (field, reason) (storedFields h etc)"
    and "wf_composer (snd (deprecate_one names field reason etc h)) etc"
    and "getTypeName etc (snd (deprecate_one names field reason etc h)) = getTypeName etc h"
proof -
  obtain p where p: "map_of (storedFields h etc) field = Some p"
    using f ks by (cases "map_of (storedFields h etc) field") (auto simp: map_of_eq_None_iff)
  note e = extendField_present[OF wf p, of "[(''deprecationReason'', JStr reason)]"]
  have d: "deprecate_one names field reason etc h =
      extendField field [(''deprecationReason'', JStr reason)] etc h"
    using f by (simp add: deprecate_one_def)
  have "delete_isDeprecated [(''deprecationReason'', JStr reason)] = [(''deprecationReason'', JStr reason)]"
    by (simp add: delete_isDeprecated_def)
  then show "storedFields (snd (deprecate_one names field reason etc h)) etc =
           deprecate_entry (field, reason) (storedFields h etc)"
    by (simp add: d e(2))
  show "fst (deprecate_one names field reason etc h) = Inr ()"
    "wf_composer (snd (deprecate_one names field reason etc h)) etc"
    "getTypeName etc (snd (deprecate_one names field reason etc h)) = getTypeName etc h"
    using e by (simp_all add: d)
qed

lemma deprecate_loop_ok:
  assumes "wf_composer h etc" "Object_keys (storedFields h etc) = names"
    "fst ` set pairs \<subseteq> set names"
  shows "fst (forEach (\<lambda>(field, reason). deprecate_one names field reason etc) pairs h) = Inr () \<and>
    storedFields (snd (forEach (\<lambda>(field, reason). deprecate_one names field reason etc) pairs h)) etc =
      fold deprecate_entry pairs (storedFields h etc) \<and>
    wf_composer (snd (forEach (\<lambda>(field, reason). deprecate_one names field reason etc) pairs h)) etc \<and>
    getTypeName etc (snd (forEach (\<lambda>(field, reason). deprecate_one names field reason etc) pairs h)) =
      getTypeName etc h"
  using assms
proof (induction pairs arbitrary: h)
  case Nil
  then show ?case by simp
next
  case (Cons x pairs)
  obtain f r where x: "x = (f, r)" by (cases x)
  have fin: "f \<in> set names" and rest: "fst ` set pairs \<subseteq> set names"
    using Cons.prems(3) by (auto simp: x)
  note d = deprecate_one_present[OF Cons.prems(1,2) fin, of r]
  obtain h1 where h1: "deprecate_one names f r etc h = (Inr (), h1)"
    using d(1) by (cases "deprecate_one names f r etc h") auto
  have ks: "Object_keys (storedFields h1 etc) = names"
    using d(2) Cons.prems(2) by (simp add: h1)
  from Cons.IH[OF _ ks rest] d h1 show ?case
    by (simp add: x)
qed

lemma deprecate_loop_fail:
  assumes wf: "wf_composer h etc" and ks: "Object_keys (storedFields h etc) = names"
    and pre: "fst ` set pre \<subseteq> set names" and f: "field \<notin> set names"
  shows "forEach (\<lambda>(field, reason). deprecate_one names field reason etc) (pre @ (field, reason) # post) h =
     (Inl (Error (''Cannot deprecate unexisted value '' @ quoted field @ '' from enum ''
                  @ quoted (getTypeName etc h))),
      snd (forEach (\<lambda>(field, reason). deprecate_one names field reason etc) pre h))"
proof -
  note ok = deprecate_loop_ok[OF wf ks pre]
  obtain h1 where h1: "forEach (\<lambda>(field, reason). deprecate_one names field reason etc) pre h = (Inr (), h1)"
    using ok by (cases "forEach (\<lambda>(field, reason). deprecate_one names field reason etc) pre h") auto
  have "getTypeName etc h1 = getTypeName etc h" using ok by (simp add: h1)
  then show ?thesis
    using f by (simp add: forEach_append h1 deprecate_one_def)
qed

lemma get_prop_defineEnumValue:
  "get_prop (defineEnumValue p) ''deprecationReason'' = get_prop p ''deprecationReason''"
  by (simp add: get_prop_def defineEnumValue_def AList.update_conv')

lemma deprecationReason_stored:
  "wf_composer h etc \<Longrightarrow>
   deprecationReason h etc name =
     map_option (\<lambda>p. get_prop p ''deprecationReason'') (map_of (storedFields h etc) name)"
  by (simp add: deprecationReason_def readFields_stored map_of_map_values option.map_comp comp_def
        get_prop_defineEnumValue)

lemma fold_deprecate_keeps:
  assumes "map_option (\<lambda>p. get_prop p ''deprecationReason'') (map_of xs f) = Some (JStr r)"
    and "\<forall>(f', r') \<in> set pairs. f' = f \<longrightarrow> r' = r"
  shows "map_option (\<lambda>p. get_prop p ''deprecationReason'') (map_of (fold deprecate_entry pairs xs) f)
         = Some (JStr r)"
  using assms
proof (induction pairs arbitrary: xs)
  case Nil
  then show ?case by simp
next
  case (Cons x pairs)
  obtain f1 r1 where x: "x = (f1, r1)" by (cases x)
  have "map_option (\<lambda>p. get_prop p ''deprecationReason'')
          (map_of (AList.map_entry f1 (AList.update ''deprecationReason'' (JStr r1)) xs) f) = Some (JStr r)"
    using Cons.prems
    by (cases "map_of xs f") (auto simp: map_of_map_entry x get_prop_def AList.update_conv')
  from Cons.IH[OF this] Cons.prems(2) show ?case
    by (simp add: x)
qed

lemma fold_deprecate_sets:
  assumes "(f, r) \<in> set pairs" "f \<in> set (Object_keys xs)"
    and "\<forall>(f', r') \<in> set pairs. f' = f \<longrightarrow> r' = r"
  shows "map_option (\<lambda>p. get_prop p ''deprecationReason'') (map_of (fold deprecate_entry pairs xs) f)
         = Some (JStr r)"
  using assms
proof (induction pairs arbitrary: xs)
  case Nil
  then show ?case by simp
next
  case (Cons x pairs)
  obtain f1 r1 where x: "x = (f1, r1)" by (cases x)
  let ?xs = "AList.map_entry f1 (AList.update ''deprecationReason'' (JStr r1)) xs"
  have fn: "\<forall>(f', r') \<in> set pairs. f' = f \<longrightarrow> r' = r"
    using Cons.prems(3) by auto
  show ?case
  proof (cases "f1 = f")
    case True
    then have r1: "r1 = r" using Cons.prems(3) by (auto simp: x)
    obtain p where "map_of xs f = Some p"
      using Cons.prems(2) by (cases "map_of xs f") (auto simp: map_of_eq_None_iff)
    then have "map_option (\<lambda>p. get_prop p ''deprecationReason'') (map_of ?xs f) = Some (JStr r)"
      by (simp add: map_of_map_entry True r1 get_prop_def AList.update_conv')
    from fold_deprecate_keeps[OF this fn] show ?thesis by (simp add: x)
  next
    case False
    then have "(f, r) \<in> set pairs" using Cons.prems(1) by (auto simp: x)
    moreover have "f \<in> set (Object_keys ?xs)" using Cons.prems(2) by simp
    ultimately show ?thesis using Cons.IH[of ?xs] fn by (simp add: x)
  qed
qed


section \<open>Filtering and picking\<close>

lemma keys_filter:
  "Object_keys (filter (\<lambda>(k, v). P k) xs) = filter P (Object_keys xs)"
  by (induction xs) auto

lemma map_of_filter_keys:
  "map_of (filter (\<lambda>(k, v). P k) xs) k = (if P k then map_of xs k else None)"
  by (induction xs) auto

lemma map_of_pick:
  "map_of (pick ns xs) k = (if k \<in> set ns then map_of xs k else None)"
  by (induction ns) (auto split: option.splits)

lemma map_of_pick_filter:
  "map_of (pick ns xs @ filter (\<lambda>(k, v). k \<notin> set ns) xs) = map_of xs"
proof
  fix k
  show "map_of (pick ns xs @ filter (\<lambda>(k, v). k \<notin> set ns) xs) k = map_of xs k"
    by (cases "map_of xs k")
       (simp_all add: map_of_append map_add_def map_of_pick map_of_filter_keys)
qed

lemma filter_none:
  "set ns \<inter> set (Object_keys xs) = {} \<Longrightarrow> filter (\<lambda>(k, v). k \<notin> set ns) xs = xs"
  by (induction xs) auto

section \<open>The example store\<close>

lemma store0_wf: "wf_composer store0 Color" "wf_map store0 2" "wf_map store0 3"
  by (simp_all add: wf_composer_def wf_map_def store0_def Color_def Let_def)

lemma store0_next [simp]:
  "next_map store0 = 4" "next_obj store0 = 6" "next_type store0 = 1" "gqType Color = 0"
  by (simp_all add: store0_def Color_def)

lemma store0_entries:
  "entries store0 2 =
     [(''GREEN'', [(''value'', JNum 10), (''isDeprecated'', JBool True)]),
      (''PURPLE'', [(''value'', JNum 4)])]"
  "entries store0 3 =
     [(''PURPLE'', [(''value'', JNum 5), (''deprecationReason'', JStr ''gone'')]),
      (''RED'', [(''value'', JNum 10), (''isDeprecated'', JBool True)])]"
  by (simp_all add: entries_def store0_def)

lemma store0_names: "fst (getFieldNames Color store0) = [''RED'', ''GREEN'', ''BLUE'']"
  by (simp add: getFieldNames_def getFields_def getNameLookup_def store0_def Color_def
        alloc_obj_def alloc_map_def Let_def)

lemma store0_stored:
  "storedFields store0 Color =
     [(''RED'', [(''value'', JNum 0)]),
      (''GREEN'', [(''value'', JNum 1), (''deprecationReason'', JStr ''old'')]),
      (''BLUE'', [(''value'', JNum 2)])]"
  by (simp add: storedFields_def entries_def store0_def Color_def)

lemma store0_read:
  "readFields store0 Color =
     [(''RED'', [(''value'', JNum 0), (''isDeprecated'', JBool False)]),
      (''GREEN'', [(''value'', JNum 1), (''deprecationReason'', JStr ''old''),
                   (''isDeprecated'', JBool True)]),
      (''BLUE'', [(''value'', JNum 2), (''isDeprecated'', JBool False)])]"
  by (simp add: readFields_stored[OF store0_wf(1)] store0_stored defineEnumValue_def get_prop_def)

section \<open>Full replace, merge, reorder, remove and extend\<close>




text \<open>
  C2. From any composer state, \<^verbatim>\<open>addFields(a); addFields(b)\<close> and
  \<^verbatim>\<open>addFields({...a, ...b})\<close> leave field maps that \<^verbatim>\<open>getFields()\<close> shows equal: the
  same names in the same order with the same configs. For a name of \<open>b\<close>, also one that
  \<open>a\<close> has, the config shown is the one of \<open>b\<close>.
\<close>

theorem addFields_merge:
  assumes wf: "wf_composer h etc" and a: "wf_map h a" and b: "wf_map h b"
  shows "readFields (addFields b etc (addFields a etc h)) etc =
         readFields (addFields (fst (alloc_map (spread (maps h a) (maps h b)) h)) etc
                               (snd (alloc_map (spread (maps h a) (maps h b)) h))) etc \<and>
         (\<forall>k \<in> set (Object_keys (maps h b)).
            map_of (readFields (addFields b etc (addFields a etc h)) etc) k =
            map_option (\<lambda>p. defineEnumValue (delete_isDeprecated p)) (map_of (entries h b) k))"
proof -
  let ?S = "map_values delete_isDeprecated"
  let ?E = "storedFields h etc"
  note af = addFields_spec[OF wf a]
  note ab = wf_map_after_addFields[OF wf a b]
  note bf = addFields_spec[OF af(2) ab(1)]
  have lhs: "storedFields (addFields b etc (addFields a etc h)) etc =
      spread (spread ?E (?S (entries h a))) (?S (entries h b))"
    by (simp add: bf(1) af(1) ab(2))
  let ?ab = "next_map h"
  let ?h0 = "h\<lparr>maps := (maps h)(?ab := spread (maps h a) (maps h b)), next_map := Suc ?ab\<rparr>"
  have al: "alloc_map (spread (maps h a) (maps h b)) h = (?ab, ?h0)"
    by (simp add: alloc_map_def)
  have wf0: "wf_composer ?h0 etc" and st0: "storedFields ?h0 etc = ?E"
    using alloc_map_wf_composer[OF wf, of "spread (maps h a) (maps h b)"] by (simp_all add: al)
  have wab: "wf_map ?h0 ?ab"
  proof -
    have "\<forall>(k, c) \<in> set (spread (maps h a) (maps h b)). c < next_obj h"
      using values_spread[of "maps h a" "maps h b"] a b by (fastforce simp: wf_map_def)
    then show ?thesis using a by (simp add: wf_map_def distinct_spread)
  qed
  note cf = addFields_spec[OF wf0 wab]
  have "entries ?h0 ?ab = spread (entries h a) (entries h b)"
    by (simp add: entries_map_values map_values_spread)
  then have rhs: "storedFields (addFields ?ab etc ?h0) etc =
      spread ?E (spread (?S (entries h a)) (?S (entries h b)))"
    by (simp add: cf(1) st0 map_values_spread)
  have da: "distinct (Object_keys (?S (entries h a)))"
    using a by (simp add: wf_map_def entries_map_values)
  have eq: "storedFields (addFields b etc (addFields a etc h)) etc =
            storedFields (addFields ?ab etc ?h0) etc"
    unfolding lhs rhs using da by (rule spread_assoc)
  have r1: "readFields (addFields b etc (addFields a etc h)) etc =
            readFields (addFields ?ab etc ?h0) etc"
    by (simp add: readFields_stored[OF bf(2)] readFields_stored[OF cf(2)] eq)
  have r2: "\<forall>k \<in> set (Object_keys (maps h b)).
            map_of (readFields (addFields b etc (addFields a etc h)) etc) k =
            map_option (\<lambda>p. defineEnumValue (delete_isDeprecated p)) (map_of (entries h b) k)"
  proof
    fix k assume "k \<in> set (Object_keys (maps h b))"
    then obtain c where c: "map_of (maps h b) k = Some c"
      by (cases "map_of (maps h b) k") (auto simp: map_of_eq_None_iff)
    have db: "distinct (Object_keys (?S (entries h b)))"
      using b by (simp add: wf_map_def entries_map_values)
    have "map_of (?S (entries h b)) k = Some (delete_isDeprecated (objs h c))"
      by (simp add: entries_map_values map_of_map_values c)
    then have "map_of (spread (spread ?E (?S (entries h a))) (?S (entries h b))) k =
        Some (delete_isDeprecated (objs h c))"
      unfolding map_of_spread[OF db] by (rule map_add_find_right)
    then show "map_of (readFields (addFields b etc (addFields a etc h)) etc) k =
            map_option (\<lambda>p. defineEnumValue (delete_isDeprecated p)) (map_of (entries h b) k)"
      by (simp add: readFields_stored[OF bf(2)] lhs map_of_map_values entries_map_values c)
  qed
  show ?thesis using r1 r2 by (simp add: al)
qed



theorem addFields_merge_witness:
  "wf_composer store0 Color \<and> wf_map store0 2 \<and> wf_map store0 3 \<and>
   readFields (addFields 3 Color (addFields 2 Color store0)) Color =
     readFields (addFields 4 Color (snd (alloc_map (spread (maps store0 2) (maps store0 3)) store0))) Color \<and>
   map_of (readFields (addFields 3 Color (addFields 2 Color store0)) Color) ''PURPLE'' =
     Some [(''value'', JNum 5), (''deprecationReason'', JStr ''gone''), (''isDeprecated'', JBool True)]"
proof -
  have k: "''PURPLE'' \<in> set (Object_keys (maps store0 3))"
    by (simp add: store0_def)
  note m = addFields_merge[OF store0_wf]
  from m have "map_of (readFields (addFields 3 Color (addFields 2 Color store0)) Color) ''PURPLE'' =
      map_option (\<lambda>p. defineEnumValue (delete_isDeprecated p)) (map_of (entries store0 3) ''PURPLE'')"
    using k by blast
  then show ?thesis
    using m store0_wf
    by (simp add: store0_entries defineEnumValue_def delete_isDeprecated_def get_prop_def)
qed




text \<open>
  C4. After \<^verbatim>\<open>removeField\<close> of a name or of an array of names, \<^verbatim>\<open>hasField\<close> is false
  for every name given. The fields left are the fields not named, in their prior order and
  each showing the same config; when no name given is a field, \<^verbatim>\<open>getFields()\<close> shows what
  it showed before. \<^verbatim>\<open>removeField\<close> has no failing path: in the model it returns a store
  and no error.
\<close>

theorem removeField_hasField:
  assumes "wf_composer h etc"
  shows "(\<forall>x \<in> set (as_array nameOrArray). \<not> fst (hasField x etc (removeField nameOrArray etc h))) \<and>
         fst (getFieldNames etc (removeField nameOrArray etc h)) =
           filter (\<lambda>n. n \<notin> set (as_array nameOrArray)) (fst (getFieldNames etc h)) \<and>
         (\<forall>n. n \<notin> set (as_array nameOrArray) \<longrightarrow>
            map_of (readFields (removeField nameOrArray etc h) etc) n = map_of (readFields h etc) n) \<and>
         (set (as_array nameOrArray) \<inter> set (fst (getFieldNames etc h)) = {} \<longrightarrow>
            readFields (removeField nameOrArray etc h) etc = readFields h etc)"
proof -
  let ?E = "storedFields h etc"
  let ?h' = "removeField nameOrArray etc h"
  let ?vn = "as_array nameOrArray"
  note r = removeField_spec[OF assms, of nameOrArray]
  have n0: "fst (getFieldNames etc h) = Object_keys ?E"
    using assms by (rule getFieldNames_stored)
  have a: "\<forall>x \<in> set ?vn. \<not> fst (hasField x etc ?h')"
    by (simp add: hasField_stored[OF r(2)] r(1) keys_filter)
  have b: "fst (getFieldNames etc ?h') = filter (\<lambda>n. n \<notin> set ?vn) (Object_keys ?E)"
    by (simp add: getFieldNames_stored(1)[OF r(2)] r(1) keys_filter)
  have c: "\<forall>n. n \<notin> set ?vn \<longrightarrow> map_of (readFields ?h' etc) n = map_of (readFields h etc) n"
    by (simp add: readFields_stored[OF r(2)] readFields_stored[OF assms] map_of_map_values r(1)
          map_of_filter_keys)
  have d: "set ?vn \<inter> set (Object_keys ?E) = {} \<longrightarrow> readFields ?h' etc = readFields h etc"
    by (simp add: readFields_stored[OF r(2)] readFields_stored[OF assms] r(1) filter_none)
  show ?thesis
    using a b c d by (simp only: n0)
qed

theorem removeField_hasField_witness:
  "wf_composer store0 Color \<and>
   \<not> fst (hasField ''GREEN'' Color (removeField (Array [''PURPLE'', ''GREEN'']) Color store0)) \<and>
   fst (getFieldNames Color (removeField (Array [''PURPLE'', ''GREEN'']) Color store0)) =
     [''RED'', ''BLUE''] \<and>
   readFields (removeField (One ''PURPLE'') Color store0) Color = readFields store0 Color \<and>
   wf_composer (snd (getFields Color store0)) Color \<and>
   fst (getFieldNames Color (removeField (One ''GREEN'') Color (snd (getFields Color store0)))) =
     [''RED'', ''BLUE'']"
proof -
  note a = removeField_hasField[OF store0_wf(1), of "Array [''PURPLE'', ''GREEN'']"]
  note b = removeField_hasField[OF store0_wf(1), of "One ''PURPLE''"]
  have "\<not> fst (hasField ''GREEN'' Color (removeField (Array [''PURPLE'', ''GREEN'']) Color store0))"
    using a by (simp add: as_array_def)
  moreover have "fst (getFieldNames Color (removeField (Array [''PURPLE'', ''GREEN'']) Color store0)) =
     [''RED'', ''BLUE'']"
    using a by (simp add: as_array_def store0_names)
  moreover have "readFields (removeField (One ''PURPLE'') Color store0) Color = readFields store0 Color"
    using b by (simp add: as_array_def store0_names)
  moreover have wf1: "wf_composer (snd (getFields Color store0)) Color"
    and st1: "storedFields (snd (getFields Color store0)) Color = storedFields store0 Color"
    using getFields_stored(2,3)[OF store0_wf(1), of "fst (getFields Color store0)"
        "snd (getFields Color store0)"]
    by simp_all
  moreover have "fst (getFieldNames Color (removeField (One ''GREEN'') Color (snd (getFields Color store0)))) =
     [''RED'', ''BLUE'']"
    using removeField_hasField[OF wf1, of "One ''GREEN''"]
    by (simp add: as_array_def getFieldNames_stored(1)[OF wf1] st1 store0_stored)
  ultimately show ?thesis using store0_wf(1) by simp
qed

lemma strip_merge_view:
  assumes "map_of p ''isDeprecated'' = None"
  shows "delete_isDeprecated (spread (defineEnumValue p) partial) =
         spread p (delete_isDeprecated partial)"
proof -
  have "delete_isDeprecated (spread (defineEnumValue p) partial) =
        spread (delete_isDeprecated (defineEnumValue p)) (delete_isDeprecated partial)"
    unfolding delete_isDeprecated_def by (rule delete_spread)
  then show ?thesis
    by (simp add: delete_isDeprecated_none[OF assms])
qed

lemma strip_map_entry_view:
  assumes "\<forall>(k, p) \<in> set E. map_of p ''isDeprecated'' = None"
  shows "map_values delete_isDeprecated
           (AList.map_entry name (\<lambda>shown. spread shown partial) (map_values defineEnumValue E)) =
         AList.map_entry name (\<lambda>prior. spread prior (delete_isDeprecated partial)) E"
  using assms
proof (induction E)
  case Nil
  then show ?case by simp
next
  case (Cons x E)
  obtain k p where x: "x = (k, p)" by (cases x)
  have cp: "map_of p ''isDeprecated'' = None" and rest: "\<forall>(k, p) \<in> set E. map_of p ''isDeprecated'' = None"
    using Cons.prems by (auto simp: x)
  have id: "map_values delete_isDeprecated E = E"
    using rest by (intro map_values_id) (auto simp: delete_isDeprecated_none)
  show ?case
    using Cons.IH[OF rest]
    by (simp add: x strip_merge_view[OF cp] delete_isDeprecated_none[OF cp] id)
qed

lemma stored_entries_clean:
  "wf_composer h etc \<Longrightarrow> \<forall>(k, p) \<in> set (storedFields h etc). map_of p ''isDeprecated'' = None"
  by (auto simp: wf_composer_def Let_def storedFields_def entries_def)

text \<open>
  C5. \<^verbatim>\<open>extendField(name, partial)\<close> throws exactly when \<open>name\<close> is no field; the error
  is the \<^verbatim>\<open>Error\<close> with the message of the source (the failure the spec calls
  \<^verbatim>\<open>NotFoundError\<close>), and the stored fields are as before. When \<open>name\<close> is a field, the
  call returns. What it stores is what the source computes: the value that \<^verbatim>\<open>getField\<close>
  showed, merged with \<open>partial\<close> (the entries of \<open>partial\<close> win), written back through
  \<^verbatim>\<open>setFields\<close>, which deletes \<^verbatim>\<open>isDeprecated\<close>; the names, their order and every other
  field are as \<^verbatim>\<open>getFields\<close> showed them. A partial config has no \<^verbatim>\<open>isDeprecated\<close> by
  its type, and then the stored map is the prior stored map with the config of \<open>name\<close>
  replaced by \<^verbatim>\<open>{...prior, ...partial}\<close> and nothing else changed.
\<close>

theorem extendField_spec:
  assumes "wf_composer h etc"
  shows "(name \<notin> set (fst (getFieldNames etc h)) \<longrightarrow>
            fst (extendField name partial etc h) =
              Inl (Error (''Cannot extend value '' @ quoted name @ '' from enum ''
                          @ quoted (getTypeName etc h) @ ''. Value does not exist.'')) \<and>
            storedFields (snd (extendField name partial etc h)) etc = storedFields h etc) \<and>
         (name \<in> set (fst (getFieldNames etc h)) \<longrightarrow>
            fst (extendField name partial etc h) = Inr () \<and>
            storedFields (snd (extendField name partial etc h)) etc =
              map_values delete_isDeprecated
                (AList.map_entry name (\<lambda>shown. spread shown partial) (readFields h etc)) \<and>
            (map_of partial ''isDeprecated'' = None \<longrightarrow>
               storedFields (snd (extendField name partial etc h)) etc =
                 AList.map_entry name (\<lambda>prior. spread prior partial) (storedFields h etc)))"
proof -
  let ?E = "storedFields h etc"
  have n0: "fst (getFieldNames etc h) = Object_keys ?E"
    using assms by (rule getFieldNames_stored)
  have a: "name \<notin> set (Object_keys ?E) \<longrightarrow>
            fst (extendField name partial etc h) =
              Inl (Error (''Cannot extend value '' @ quoted name @ '' from enum ''
                          @ quoted (getTypeName etc h) @ ''. Value does not exist.'')) \<and>
            storedFields (snd (extendField name partial etc h)) etc = ?E"
  proof
    assume nm: "name \<notin> set (Object_keys ?E)"
    obtain l h1 where gf: "getFields etc h = (l, h1)" by (cases "getFields etc h")
    show "fst (extendField name partial etc h) =
              Inl (Error (''Cannot extend value '' @ quoted name @ '' from enum ''
                          @ quoted (getTypeName etc h) @ ''. Value does not exist.'')) \<and>
            storedFields (snd (extendField name partial etc h)) etc = ?E"
      by (simp add: extendField_missing[OF assms nm] gf getFields_stored(2)[OF assms gf])
  qed
  have b: "name \<in> set (Object_keys ?E) \<longrightarrow>
            fst (extendField name partial etc h) = Inr () \<and>
            storedFields (snd (extendField name partial etc h)) etc =
              map_values delete_isDeprecated
                (AList.map_entry name (\<lambda>shown. spread shown partial) (readFields h etc)) \<and>
            (map_of partial ''isDeprecated'' = None \<longrightarrow>
               storedFields (snd (extendField name partial etc h)) etc =
                 AList.map_entry name (\<lambda>prior. spread prior partial) ?E)"
  proof
    assume "name \<in> set (Object_keys ?E)"
    then obtain p where p: "map_of ?E name = Some p"
      by (cases "map_of ?E name") (auto simp: map_of_eq_None_iff)
    note e = extendField_present(1,2)[OF assms p, of partial]
    have v: "map_values delete_isDeprecated
                (AList.map_entry name (\<lambda>shown. spread shown partial) (readFields h etc)) =
             AList.map_entry name (\<lambda>prior. spread prior (delete_isDeprecated partial)) ?E"
      unfolding readFields_stored[OF assms]
      using stored_entries_clean[OF assms] by (rule strip_map_entry_view)
    show "fst (extendField name partial etc h) = Inr () \<and>
            storedFields (snd (extendField name partial etc h)) etc =
              map_values delete_isDeprecated
                (AList.map_entry name (\<lambda>shown. spread shown partial) (readFields h etc)) \<and>
            (map_of partial ''isDeprecated'' = None \<longrightarrow>
               storedFields (snd (extendField name partial etc h)) etc =
                 AList.map_entry name (\<lambda>prior. spread prior partial) ?E)"
      using e by (simp add: v delete_isDeprecated_none)
  qed
  show ?thesis
    using a b by (simp only: n0)
qed

theorem extendField_spec_witness:
  "wf_composer store0 Color \<and>
   fst (extendField ''PURPLE'' [(''description'', JStr ''warm'')] Color store0) =
     Inl (Error ''Cannot extend value 'PURPLE' from enum 'Color'. Value does not exist.'') \<and>
   fst (extendField ''RED'' [(''description'', JStr ''warm'')] Color store0) = Inr () \<and>
   storedFields (snd (extendField ''RED'' [(''description'', JStr ''warm'')] Color store0)) Color =
     [(''RED'', [(''value'', JNum 0), (''description'', JStr ''warm'')]),
      (''GREEN'', [(''value'', JNum 1), (''deprecationReason'', JStr ''old'')]),
      (''BLUE'', [(''value'', JNum 2)])]"
proof -
  have t: "getTypeName Color store0 = ''Color''"
    by (simp add: getTypeName_def store0_def Color_def)
  note a = extendField_spec[OF store0_wf(1), of "''PURPLE''" "[(''description'', JStr ''warm'')]"]
  note b = extendField_spec[OF store0_wf(1), of "''RED''" "[(''description'', JStr ''warm'')]"]
  have "fst (extendField ''PURPLE'' [(''description'', JStr ''warm'')] Color store0) =
     Inl (Error ''Cannot extend value 'PURPLE' from enum 'Color'. Value does not exist.'')"
    using a by (simp add: store0_names t quoted_def)
  moreover have "fst (extendField ''RED'' [(''description'', JStr ''warm'')] Color store0) = Inr () \<and>
    storedFields (snd (extendField ''RED'' [(''description'', JStr ''warm'')] Color store0)) Color =
     [(''RED'', [(''value'', JNum 0), (''description'', JStr ''warm'')]),
      (''GREEN'', [(''value'', JNum 1), (''deprecationReason'', JStr ''old'')]),
      (''BLUE'', [(''value'', JNum 2)])]"
    using b by (simp add: store0_names store0_stored store0_read delete_isDeprecated_def)
  ultimately show ?thesis using store0_wf(1) by simp
qed


section \<open>Deprecation\<close>

lemma targets_functional:
  assumes "case flds of FieldMap fieldMap \<Rightarrow> distinct (Object_keys fieldMap) | _ \<Rightarrow> True"
    and "(f, r) \<in> set (deprecate_targets flds)"
  shows "\<forall>(f', r') \<in> set (deprecate_targets flds). f' = f \<longrightarrow> r' = r"
proof (cases flds)
  case (FieldName x)
  then show ?thesis using assms(2) by (simp add: deprecate_targets_def)
next
  case (FieldNames xs)
  then show ?thesis using assms(2) by (auto simp: deprecate_targets_def)
next
  case (FieldMap m)
  then have "distinct (Object_keys m)" "(f, r) \<in> set m"
    using assms by (simp_all add: deprecate_targets_def)
  then have "\<forall>(f', r') \<in> set m. f' = f \<longrightarrow> r' = r"
    by (auto dest: eq_key_imp_eq_value)
  then show ?thesis by (simp add: FieldMap deprecate_targets_def)
qed

lemma deprecateFields_start:
  assumes wf: "wf_composer h etc"
  shows "wf_composer (snd (getFieldNames etc h)) etc"
    and "storedFields (snd (getFieldNames etc h)) etc = storedFields h etc"
    and "getTypeName etc (snd (getFieldNames etc h)) = getTypeName etc h"
    and "fst (getFieldNames etc h) = Object_keys (storedFields h etc)"
proof -
  obtain l h1 where gf: "getFields etc h = (l, h1)" by (cases "getFields etc h")
  have s: "snd (getFieldNames etc h) = h1"
    by (simp add: getFieldNames_def gf)
  show "wf_composer (snd (getFieldNames etc h)) etc"
    "storedFields (snd (getFieldNames etc h)) etc = storedFields h etc"
    "getTypeName etc (snd (getFieldNames etc h)) = getTypeName etc h"
    unfolding s
    using getFields_stored(2,3)[OF wf gf] getFields_type_name[OF wf gf] by simp_all
  show "fst (getFieldNames etc h) = Object_keys (storedFields h etc)"
    using wf by (rule getFieldNames_stored)
qed

lemma deprecateFields_prefix:
  assumes wf: "wf_composer h etc"
    and obj: "case flds of FieldMap fieldMap \<Rightarrow> distinct (Object_keys fieldMap) | _ \<Rightarrow> True"
    and split: "deprecate_targets flds = pre @ rest"
    and pre: "\<forall>(f, r) \<in> set pre. f \<in> set (Object_keys (storedFields h etc))"
  defines "names \<equiv> fst (getFieldNames etc h)"
  defines "res \<equiv> forEach (\<lambda>(field, reason). deprecate_one names field reason etc) pre
                          (snd (getFieldNames etc h))"
  shows "fst res = Inr ()"
    and "storedFields (snd res) etc = fold deprecate_entry pre (storedFields h etc)"
    and "wf_composer (snd res) etc"
    and "getTypeName etc (snd res) = getTypeName etc h"
    and "\<forall>(f, r) \<in> set pre. deprecationReason (snd res) etc f = Some (JStr r)"
proof -
  note st = deprecateFields_start[OF wf]
  have ks: "Object_keys (storedFields (snd (getFieldNames etc h)) etc) = names"
    by (simp add: st(2,4) names_def)
  have sub: "fst ` set pre \<subseteq> set names"
    using pre by (auto simp: names_def st(4))
  note ok = deprecate_loop_ok[OF st(1) ks sub]
  show a: "fst res = Inr ()" and b: "storedFields (snd res) etc = fold deprecate_entry pre (storedFields h etc)"
    and c: "wf_composer (snd res) etc" and "getTypeName etc (snd res) = getTypeName etc h"
    using ok by (simp_all add: res_def st(2,3))
  show "\<forall>(f, r) \<in> set pre. deprecationReason (snd res) etc f = Some (JStr r)"
  proof (clarify)
    fix f r assume fr: "(f, r) \<in> set pre"
    then have "(f, r) \<in> set (deprecate_targets flds)" by (simp add: split)
    from targets_functional[OF obj this]
    have fn: "\<forall>(f', r') \<in> set pre. f' = f \<longrightarrow> r' = r"
      by (auto simp: split)
    have fk: "f \<in> set (Object_keys (storedFields h etc))"
      using pre fr by auto
    show "deprecationReason (snd res) etc f = Some (JStr r)"
      unfolding deprecationReason_stored[OF c] b
      using fr fk fn by (rule fold_deprecate_sets)
  qed
qed

text \<open>
  C6. \<^verbatim>\<open>deprecateFields\<close>, in each of its three forms. When every field it names is a
  field of the enum, the call returns and \<^verbatim>\<open>getField(name).deprecationReason\<close> is
  \<^verbatim>\<open>'deprecated'\<close> for every name of the string and array forms, and the caller's reason
  for every name of the object form. When it names a field that the enum does not have,
  the call throws the \<^verbatim>\<open>Error\<close> whose message names such a field (the failure the spec
  calls \<^verbatim>\<open>NotFoundError\<close>).
\<close>

theorem deprecateFields_spec:
  assumes "wf_composer h etc"
    and "case flds of FieldMap fieldMap \<Rightarrow> distinct (Object_keys fieldMap) | _ \<Rightarrow> True"
  shows "((\<forall>(field, reason) \<in> set (deprecate_targets flds). field \<in> set (fst (getFieldNames etc h))) \<longrightarrow>
            fst (deprecateFields flds etc h) = Inr () \<and>
            (\<forall>(field, reason) \<in> set (deprecate_targets flds).
               deprecationReason (snd (deprecateFields flds etc h)) etc field = Some (JStr reason))) \<and>
         (\<not> (\<forall>(field, reason) \<in> set (deprecate_targets flds). field \<in> set (fst (getFieldNames etc h))) \<longrightarrow>
            (\<exists>field \<in> set (Object_keys (deprecate_targets flds)).
               field \<notin> set (fst (getFieldNames etc h)) \<and>
               fst (deprecateFields flds etc h) =
                 Inl (Error (''Cannot deprecate unexisted value '' @ quoted field @ '' from enum ''
                             @ quoted (getTypeName etc h)))))"
proof -
  note st = deprecateFields_start[OF assms(1)]
  let ?names = "fst (getFieldNames etc h)"
  let ?G = "\<lambda>(field, reason). deprecate_one ?names field reason etc"
  let ?h0 = "snd (getFieldNames etc h)"
  have loop: "deprecateFields flds etc h = forEach ?G (deprecate_targets flds) ?h0"
    by (rule deprecateFields_loop)
  have ok: "(\<forall>(field, reason) \<in> set (deprecate_targets flds). field \<in> set ?names) \<longrightarrow>
            fst (deprecateFields flds etc h) = Inr () \<and>
            (\<forall>(field, reason) \<in> set (deprecate_targets flds).
               deprecationReason (snd (deprecateFields flds etc h)) etc field = Some (JStr reason))"
  proof
    assume "\<forall>(field, reason) \<in> set (deprecate_targets flds). field \<in> set ?names"
    then have pre: "\<forall>(f, r) \<in> set (deprecate_targets flds). f \<in> set (Object_keys (storedFields h etc))"
      by (simp add: st(4))
    have sp: "deprecate_targets flds = deprecate_targets flds @ []" by simp
    from deprecateFields_prefix(1,5)[OF assms sp pre]
    show "fst (deprecateFields flds etc h) = Inr () \<and>
            (\<forall>(field, reason) \<in> set (deprecate_targets flds).
               deprecationReason (snd (deprecateFields flds etc h)) etc field = Some (JStr reason))"
      by (simp add: loop)
  qed
  have bad: "\<not> (\<forall>(field, reason) \<in> set (deprecate_targets flds). field \<in> set ?names) \<longrightarrow>
            (\<exists>field \<in> set (Object_keys (deprecate_targets flds)).
               field \<notin> set ?names \<and>
               fst (deprecateFields flds etc h) =
                 Inl (Error (''Cannot deprecate unexisted value '' @ quoted field @ '' from enum ''
                             @ quoted (getTypeName etc h))))"
  proof
    assume "\<not> (\<forall>(field, reason) \<in> set (deprecate_targets flds). field \<in> set ?names)"
    then have "\<exists>x \<in> set (deprecate_targets flds). fst x \<notin> set ?names"
      by force
    from split_list_first_prop[OF this]
    obtain pre x post where sp: "deprecate_targets flds = pre @ x # post"
      and x: "fst x \<notin> set ?names" and pre: "\<forall>y \<in> set pre. \<not> fst y \<notin> set ?names"
      by blast
    obtain f r where fr: "x = (f, r)" by (cases x)
    have ks: "Object_keys (storedFields ?h0 etc) = ?names"
      by (simp add: st(2,4))
    have sub: "fst ` set pre \<subseteq> set ?names" using pre by auto
    have fm: "f \<notin> set ?names" using x by (simp add: fr)
    have "fst (deprecateFields flds etc h) =
        Inl (Error (''Cannot deprecate unexisted value '' @ quoted f @ '' from enum ''
                    @ quoted (getTypeName etc h)))"
      unfolding loop sp fr deprecate_loop_fail[OF st(1) ks sub fm]
      by (simp add: st(3))
    moreover have "f \<in> set (Object_keys (deprecate_targets flds))"
      by (simp add: sp fr)
    ultimately show "\<exists>field \<in> set (Object_keys (deprecate_targets flds)).
               field \<notin> set ?names \<and>
               fst (deprecateFields flds etc h) =
                 Inl (Error (''Cannot deprecate unexisted value '' @ quoted field @ '' from enum ''
                             @ quoted (getTypeName etc h)))"
      using fm by blast
  qed
  show ?thesis using ok bad by blast
qed

theorem deprecateFields_spec_witness:
  "wf_composer store0 Color \<and>
   fst (deprecateFields (FieldName ''RED'') Color store0) = Inr () \<and>
   deprecationReason (snd (deprecateFields (FieldName ''RED'') Color store0)) Color ''RED'' =
     Some (JStr ''deprecated'') \<and>
   fst (deprecateFields (FieldName ''PURPLE'') Color store0) =
     Inl (Error (''Cannot deprecate unexisted value 'PURPLE' from enum '' @ quoted ''Color'')) \<and>
   deprecationReason
     (snd (deprecateFields (FieldMap [(''BLUE'', ''too cold''), (''RED'', ''too warm'')]) Color store0))
     Color ''BLUE'' = Some (JStr ''too cold'')"
proof -
  have t: "getTypeName Color store0 = ''Color''"
    by (simp add: getTypeName_def store0_def Color_def)
  have a: "fst (deprecateFields (FieldName ''RED'') Color store0) = Inr () \<and>
   deprecationReason (snd (deprecateFields (FieldName ''RED'') Color store0)) Color ''RED'' =
     Some (JStr ''deprecated'')"
    using deprecateFields_spec[OF store0_wf(1), of "FieldName ''RED''"]
    by (simp add: deprecate_targets_def store0_names)
  have b: "fst (deprecateFields (FieldName ''PURPLE'') Color store0) =
     Inl (Error (''Cannot deprecate unexisted value 'PURPLE' from enum '' @ quoted ''Color''))"
    using deprecateFields_spec[OF store0_wf(1), of "FieldName ''PURPLE''"]
    by (simp add: deprecate_targets_def store0_names t quoted_def)
  have c: "deprecationReason
     (snd (deprecateFields (FieldMap [(''BLUE'', ''too cold''), (''RED'', ''too warm'')]) Color store0))
     Color ''BLUE'' = Some (JStr ''too cold'')"
    using deprecateFields_spec[OF store0_wf(1),
        of "FieldMap [(''BLUE'', ''too cold''), (''RED'', ''too warm'')]"]
    by (simp add: deprecate_targets_def store0_names)
  show ?thesis using a b c store0_wf(1) by simp
qed

text \<open>
  C7. When \<^verbatim>\<open>deprecateFields\<close> reaches a name that is no field after names that are
  fields, it throws the error that names it, and in the store it leaves the earlier fields
  are deprecated: the stored fields are the prior ones with exactly the entries before the
  failing one applied, and \<^verbatim>\<open>getField(name).deprecationReason\<close> is the reason given for
  each of them. Nothing is validated up front and nothing is rolled back.
\<close>

theorem deprecateFields_partial:
  assumes "wf_composer h etc"
    and "case flds of FieldMap fieldMap \<Rightarrow> distinct (Object_keys fieldMap) | _ \<Rightarrow> True"
    and "deprecate_targets flds = pre @ (field, reason) # post"
    and "\<forall>(f, r) \<in> set pre. f \<in> set (fst (getFieldNames etc h))"
    and "field \<notin> set (fst (getFieldNames etc h))"
  shows "fst (deprecateFields flds etc h) =
           Inl (Error (''Cannot deprecate unexisted value '' @ quoted field @ '' from enum ''
                       @ quoted (getTypeName etc h))) \<and>
         storedFields (snd (deprecateFields flds etc h)) etc =
           fold deprecate_entry pre (storedFields h etc) \<and>
         (\<forall>(f, r) \<in> set pre.
            deprecationReason (snd (deprecateFields flds etc h)) etc f = Some (JStr r))"
proof -
  note st = deprecateFields_start[OF assms(1)]
  let ?names = "fst (getFieldNames etc h)"
  let ?G = "\<lambda>(field, reason). deprecate_one ?names field reason etc"
  let ?h0 = "snd (getFieldNames etc h)"
  have loop: "deprecateFields flds etc h = forEach ?G (pre @ (field, reason) # post) ?h0"
    unfolding assms(3)[symmetric] by (rule deprecateFields_loop)
  have ks: "Object_keys (storedFields ?h0 etc) = ?names"
    by (simp add: st(2,4))
  have sub: "fst ` set pre \<subseteq> set ?names" using assms(4) by auto
  have pre: "\<forall>(f, r) \<in> set pre. f \<in> set (Object_keys (storedFields h etc))"
    using assms(4) by (simp add: st(4))
  note fail = deprecate_loop_fail[OF st(1) ks sub assms(5), of reason post]
  note p = deprecateFields_prefix(2,5)[OF assms(1,2,3) pre]
  show ?thesis
    unfolding loop fail using p by (simp add: st(3))
qed


theorem deprecateFields_partial_witness:
  "wf_composer store0 Color \<and>
   deprecate_targets (FieldNames [''RED'', ''PURPLE'', ''BLUE'']) =
     [(''RED'', ''deprecated'')] @ (''PURPLE'', ''deprecated'') # [(''BLUE'', ''deprecated'')] \<and>
   ''PURPLE'' \<notin> set (fst (getFieldNames Color store0)) \<and>
   fst (deprecateFields (FieldNames [''RED'', ''PURPLE'', ''BLUE'']) Color store0) =
     Inl (Error (''Cannot deprecate unexisted value 'PURPLE' from enum '' @ quoted ''Color'')) \<and>
   deprecationReason store0 Color ''RED'' = Some JUndefined \<and>
   deprecationReason (snd (deprecateFields (FieldNames [''RED'', ''PURPLE'', ''BLUE'']) Color store0))
     Color ''RED'' = Some (JStr ''deprecated'') \<and>
   storedFields (snd (deprecateFields (FieldNames [''RED'', ''PURPLE'', ''BLUE'']) Color store0)) Color =
     [(''RED'', [(''value'', JNum 0), (''deprecationReason'', JStr ''deprecated'')]),
      (''GREEN'', [(''value'', JNum 1), (''deprecationReason'', JStr ''old'')]),
      (''BLUE'', [(''value'', JNum 2)])]"
proof -
  have t: "getTypeName Color store0 = ''Color''"
    by (simp add: getTypeName_def store0_def Color_def)
  have o: "case FieldNames [''RED'', ''PURPLE'', ''BLUE''] of
             FieldMap fieldMap \<Rightarrow> distinct (Object_keys fieldMap) | _ \<Rightarrow> True"
    by simp
  have sp: "deprecate_targets (FieldNames [''RED'', ''PURPLE'', ''BLUE'']) =
     [(''RED'', ''deprecated'')] @ (''PURPLE'', ''deprecated'') # [(''BLUE'', ''deprecated'')]"
    by (simp add: deprecate_targets_def)
  have pre: "\<forall>(f, r) \<in> set [(''RED'', ''deprecated'')]. f \<in> set (fst (getFieldNames Color store0))"
    by (simp add: store0_names)
  have miss: "''PURPLE'' \<notin> set (fst (getFieldNames Color store0))"
    by (simp add: store0_names)
  have before: "deprecationReason store0 Color ''RED'' = Some JUndefined"
    by (simp add: deprecationReason_def store0_read get_prop_def)
  from deprecateFields_partial[OF store0_wf(1) o sp pre miss] show ?thesis
    using store0_wf(1) sp miss before
    by (simp add: t quoted_def store0_stored)
qed

section \<open>What a mutator call leaves alone\<close>

lemma frame_refl: "frame Ms Os t h h"
  by (simp add: frame_def)

lemma frame_trans:
  assumes "frame Ms Os t h h1" "frame Ms1 Os1 t h1 h2"
    and "\<forall>m \<in> Ms1. m < next_map h \<longrightarrow> m \<in> Ms" and "\<forall>c \<in> Os1. c < next_obj h \<longrightarrow> c \<in> Os"
  shows "frame Ms Os t h h2"
proof -
  have "\<forall>c < next_obj h. (c \<notin> Os \<longrightarrow> objs h2 c = objs h c) \<and>
         (objs h2 c = objs h c \<or> objs h2 c = delete_isDeprecated (objs h c))"
  proof (intro allI impI)
    fix c assume c: "c < next_obj h"
    then have c1: "c < next_obj h1" using assms(1) by (simp add: frame_def)
    have a: "(c \<notin> Os \<longrightarrow> objs h1 c = objs h c) \<and>
         (objs h1 c = objs h c \<or> objs h1 c = delete_isDeprecated (objs h c))"
      using assms(1) c by (simp add: frame_def)
    have b: "(c \<notin> Os1 \<longrightarrow> objs h2 c = objs h1 c) \<and>
         (objs h2 c = objs h1 c \<or> objs h2 c = delete_isDeprecated (objs h1 c))"
      using assms(2) c1 by (simp add: frame_def)
    have "c \<notin> Os \<Longrightarrow> c \<notin> Os1" using assms(4) c by blast
    then show "(c \<notin> Os \<longrightarrow> objs h2 c = objs h c) \<and>
         (objs h2 c = objs h c \<or> objs h2 c = delete_isDeprecated (objs h c))"
      using a b by (metis delete_isDeprecated_idem)
  qed
  moreover have "\<forall>m < next_map h. m \<notin> Ms \<longrightarrow> maps h2 m = maps h m"
  proof (intro allI impI)
    fix m assume m: "m < next_map h" "m \<notin> Ms"
    then have "m < next_map h1" "m \<notin> Ms1" using assms(1,3) by (auto simp: frame_def)
    then have "maps h2 m = maps h1 m" using assms(2) by (simp add: frame_def)
    then show "maps h2 m = maps h m" using assms(1) m by (simp add: frame_def)
  qed
  ultimately show ?thesis
    using assms(1,2) by (simp add: frame_def)
qed

lemma frame_mono: "frame Ms Os t h h' \<Longrightarrow> Ms \<subseteq> Ms' \<Longrightarrow> Os \<subseteq> Os' \<Longrightarrow> frame Ms' Os' t h h'"
  by (simp add: frame_def) blast

lemma frame_alloc_obj: "frame {} {} t h (snd (alloc_obj p h))"
  by (simp add: frame_def)

lemma frame_alloc_map: "frame {} {} t h (snd (alloc_map m h))"
  by (simp add: frame_def)

lemma frame_setFields: "frame {} (snd ` set (maps h m)) (gqType etc) h (setFields m etc h)"
  by (simp add: frame_def setFields_types_other setFields_objs)

lemma frame_map_write: "frame {l} {} t h (h\<lparr>maps := (maps h)(l := v)\<rparr>)"
  by (simp add: frame_def)

lemma frame_getFields:
  assumes wf: "wf_composer h etc" and gf: "getFields etc h = (l, h1)"
  shows "frame {} {} (gqType etc) h h1"
    and "l \<in> cache_maps h etc \<or> next_map h \<le> l"
    and "\<forall>c \<in> snd ` set (maps h1 l). c \<in> view_objs h etc \<or> next_obj h \<le> c"
    and "cache_maps h1 etc = {l}" and "view_objs h1 etc = snd ` set (maps h1 l)"
proof -
  note g = getFields_spec[OF wf gf]
  show "frame {} {} (gqType etc) h h1"
    using g by (simp add: frame_def)
  show "cache_maps h1 etc = {l}" "view_objs h1 etc = snd ` set (maps h1 l)"
    by (simp_all add: cache_maps_def view_objs_def g(7))
  let ?t = "types h (gqType etc)"
  let ?s = "config_values (enumConfig ?t)"
  have sall: "\<forall>(k, c) \<in> set (maps h ?s). c < next_obj h"
    using wf by (auto simp: wf_composer_def wf_map_def Let_def)
  have "(l \<in> cache_maps h etc \<or> next_map h \<le> l) \<and>
        (\<forall>c \<in> snd ` set (maps h1 l). c \<in> view_objs h etc \<or> next_obj h \<le> c)"
  proof (cases "nameLookup_cache ?t")
    case (Some l0)
    then have "l = l0" "h1 = h"
      using gf by (auto simp: getFields_def getNameLookup_def)
    then show ?thesis using Some by (simp add: cache_maps_def view_objs_def)
  next
    case None
    obtain vs ha where dv: "defineEnumValues (maps h ?s) h = (vs, ha)"
      by (cases "defineEnumValues (maps h ?s) h")
    note fr = defineEnumValues_frame[OF dv]
    note ob = defineEnumValues_objs[OF dv sall]
    have l: "l = next_map h" and h1: "maps h1 (next_map h) = vs"
      using gf None dv fr by (auto simp: getFields_def getNameLookup_def alloc_map_def Let_def)
    have "\<forall>c \<in> snd ` set vs. next_obj h \<le> c"
      using ob by fastforce
    then show ?thesis by (simp add: l h1)
  qed
  then show "l \<in> cache_maps h etc \<or> next_map h \<le> l"
    "\<forall>c \<in> snd ` set (maps h1 l). c \<in> view_objs h etc \<or> next_obj h \<le> c"
    by blast+
qed


lemma cache_view_alloc [simp]:
  "cache_maps (snd (alloc_obj p h)) etc = cache_maps h etc"
  "view_objs (snd (alloc_obj p h)) etc = view_objs h etc"
  "cache_maps (snd (alloc_map m h)) etc = cache_maps h etc"
  by (simp_all add: cache_maps_def view_objs_def split: option.splits)

lemma view_objs_alloc_map:
  "wf_composer h etc \<Longrightarrow> view_objs (snd (alloc_map m h)) etc = view_objs h etc"
  by (auto simp: view_objs_def wf_composer_def Let_def split: option.splits)

lemma frame_addFields:
  assumes wf: "wf_composer h etc" and a: "a < next_map h"
  shows "frame (cache_maps h etc) (view_objs h etc \<union> snd ` set (maps h a)) (gqType etc) h
           (addFields a etc h)"
proof -
  obtain l h1 where gf: "getFields etc h = (l, h1)" by (cases "getFields etc h")
  note f = frame_getFields[OF wf gf]
  note g = getFields_spec[OF wf gf]
  let ?new = "spread (maps h1 l) (maps h1 a)"
  let ?h2 = "snd (alloc_map ?new h1)"
  have af: "addFields a etc h = setFields (next_map h1) etc ?h2"
    by (simp add: addFields_def gf split_def Let_def)
  have f12: "frame {} {} (gqType etc) h ?h2"
    using f(1) frame_alloc_map by (rule frame_trans) simp_all
  have f3: "frame {} (snd ` set ?new) (gqType etc) ?h2 (setFields (next_map h1) etc ?h2)"
    using frame_setFields[of ?h2 "next_map h1" etc] by simp
  have ma: "maps h1 a = maps h a" using g(5) a by simp
  have os: "\<forall>c \<in> snd ` set ?new. c < next_obj h \<longrightarrow> c \<in> view_objs h etc \<union> snd ` set (maps h a)"
  proof (intro ballI impI)
    fix c assume c: "c \<in> snd ` set ?new" "c < next_obj h"
    have "c \<in> snd ` set (maps h1 l) \<union> snd ` set (maps h a)"
      using values_spread[of "maps h1 l" "maps h1 a"] c(1) unfolding ma by blast
    then show "c \<in> view_objs h etc \<union> snd ` set (maps h a)"
      using f(3) c(2) by fastforce
  qed
  have "frame {} (view_objs h etc \<union> snd ` set (maps h a)) (gqType etc) h (addFields a etc h)"
    unfolding af
    using frame_mono[OF f12, of "{}" "view_objs h etc \<union> snd ` set (maps h a)"] f3 _ os
    by (rule frame_trans) simp_all
  then show ?thesis by (rule frame_mono) simp_all
qed

lemma frame_setField:
  assumes wf: "wf_composer h etc"
  shows "frame (cache_maps h etc) (view_objs h etc \<union> {c}) (gqType etc) h (setField name c etc h)"
proof -
  let ?h1 = "snd (alloc_map [(name, c)] h)"
  have sf: "setField name c etc h = addFields (next_map h) etc ?h1"
    by (simp add: setField_def split_def)
  have wf1: "wf_composer ?h1 etc"
    using wf by (rule alloc_map_wf_composer)
  have "frame (cache_maps ?h1 etc) (view_objs ?h1 etc \<union> snd ` set (maps ?h1 (next_map h)))
          (gqType etc) ?h1 (addFields (next_map h) etc ?h1)"
    using wf1 by (rule frame_addFields) simp
  then have f2: "frame (cache_maps h etc) (view_objs h etc \<union> {c}) (gqType etc) ?h1
                   (setField name c etc h)"
    by (simp add: sf view_objs_alloc_map[OF wf])
  have f1: "frame (cache_maps h etc) (view_objs h etc \<union> {c}) (gqType etc) h ?h1"
    using frame_alloc_map by (rule frame_mono) simp_all
  show ?thesis using f1 f2 by (rule frame_trans) simp_all
qed

lemma frame_rewrite_lookup:
  assumes wf: "wf_composer h etc" and gf: "getFields etc h = (l, h1)"
    and sub: "snd ` set new \<subseteq> snd ` set (maps h1 l)"
    and h3: "maps h3 m = new" "\<forall>m' < next_map h1. m' \<noteq> l \<longrightarrow> maps h3 m' = maps h1 m'"
      "objs h3 = objs h1" "types h3 = types h1"
      "next_obj h1 \<le> next_obj h3" "next_map h1 \<le> next_map h3" "next_type h3 = next_type h1"
  shows "frame (cache_maps h etc) (view_objs h etc) (gqType etc) h (setFields m etc h3)"
proof -
  note f = frame_getFields[OF wf gf]
  have f13: "frame {l} {} (gqType etc) h1 h3"
    using h3 by (simp add: frame_def)
  have f3: "frame {} (snd ` set new) (gqType etc) h3 (setFields m etc h3)"
    using frame_setFields[of h3 m etc] by (simp add: h3(1))
  have f1: "frame (cache_maps h etc) (view_objs h etc) (gqType etc) h h1"
    using f(1) by (rule frame_mono) simp_all
  have ms: "\<forall>m \<in> {l}. m < next_map h \<longrightarrow> m \<in> cache_maps h etc"
    using f(2) by auto
  have f13': "frame (cache_maps h etc) (view_objs h etc) (gqType etc) h h3"
    using f1 f13 ms by (rule frame_trans) simp
  have os: "\<forall>c \<in> snd ` set new. c < next_obj h \<longrightarrow> c \<in> view_objs h etc"
  proof (intro ballI impI)
    fix c assume c: "c \<in> snd ` set new" "c < next_obj h"
    then have "c \<in> snd ` set (maps h1 l)" using sub by blast
    then show "c \<in> view_objs h etc" using f(3) c(2) by fastforce
  qed
  show ?thesis
    using f13' f3 _ os by (rule frame_trans) simp
qed


lemma frame_removeField:
  assumes wf: "wf_composer h etc"
  shows "frame (cache_maps h etc) (view_objs h etc) (gqType etc) h (removeField x etc h)"
proof -
  obtain l h1 where gf: "getFields etc h = (l, h1)" by (cases "getFields etc h")
  let ?rest = "fold AList.delete (as_array x) (maps h1 l)"
  let ?h3 = "snd (alloc_map ?rest (h1\<lparr>maps := (maps h1)(l := ?rest)\<rparr>))"
  have rf: "removeField x etc h = setFields (next_map h1) etc ?h3"
    by (simp add: removeField_def gf split_def Let_def)
  have sub: "snd ` set ?rest \<subseteq> snd ` set (maps h1 l)"
    by (auto simp: fold_delete)
  show ?thesis
    unfolding rf using wf gf sub by (rule frame_rewrite_lookup) simp_all
qed

lemma fold_keep:
  "fold (\<lambda>k m. if k \<notin> set keep then AList.delete k m else m) ks xs =
     filter (\<lambda>(k, v). k \<notin> set ks \<or> k \<in> set keep) xs"
proof (induction ks arbitrary: xs)
  case Nil
  then show ?case by simp
next
  case (Cons k ks)
  have "filter (\<lambda>(k', v). k' \<notin> set ks \<or> k' \<in> set keep) (AList.delete k xs) =
        filter (\<lambda>(k', v). k' \<notin> set (k # ks) \<or> k' \<in> set keep) xs" if "k \<notin> set keep"
    using that by (induction xs) (auto simp: AList.delete_eq)
  moreover have "filter (\<lambda>(k', v). k' \<notin> set ks \<or> k' \<in> set keep) xs =
        filter (\<lambda>(k', v). k' \<notin> set (k # ks) \<or> k' \<in> set keep) xs" if "k \<in> set keep"
    using that by (intro filter_cong) auto
  ultimately show ?case by (simp add: Cons.IH)
qed

lemma frame_removeOtherFields:
  assumes wf: "wf_composer h etc"
  shows "frame (cache_maps h etc) (view_objs h etc) (gqType etc) h (removeOtherFields x etc h)"
proof -
  obtain l h1 where gf: "getFields etc h = (l, h1)" by (cases "getFields etc h")
  let ?rest = "fold (\<lambda>fieldName m. if fieldName \<notin> set (as_array x) then AList.delete fieldName m else m)
                      (Object_keys (maps h1 l)) (maps h1 l)"
  let ?h2 = "h1\<lparr>maps := (maps h1)(l := ?rest)\<rparr>"
  have rf: "removeOtherFields x etc h = setFields l etc ?h2"
    by (simp add: removeOtherFields_def gf split_def Let_def)
  have sub: "snd ` set ?rest \<subseteq> snd ` set (maps h1 l)"
    by (auto simp: fold_keep)
  show ?thesis
    unfolding rf using wf gf sub by (rule frame_rewrite_lookup) simp_all
qed

lemma reorder_loop_values:
  "reorder_loop names ord flds = (ord', rest) \<Longrightarrow>
   snd ` set ord' \<union> snd ` set rest \<subseteq> snd ` set ord \<union> snd ` set flds"
proof (induction names arbitrary: ord flds)
  case Nil
  then show ?case by auto
next
  case (Cons n ns)
  show ?case
  proof (cases "map_of flds n")
    case None
    then show ?thesis using Cons by simp
  next
    case (Some v)
    have u: "snd ` set (AList.update n v ord) \<subseteq> insert v (snd ` set ord)"
      by (induction ord) auto
    have d: "snd ` set (AList.delete n flds) \<subseteq> snd ` set flds"
      by (auto simp: AList.delete_eq)
    have v: "v \<in> snd ` set flds"
      using Some by (metis map_of_SomeD snd_conv image_eqI)
    have "reorder_loop ns (AList.update n v ord) (AList.delete n flds) = (ord', rest)"
      using Cons.prems Some by simp
    from Cons.IH[OF this] u d v show ?thesis by blast
  qed
qed

lemma frame_reorderFields:
  assumes wf: "wf_composer h etc"
  shows "frame (cache_maps h etc) (view_objs h etc) (gqType etc) h (reorderFields names etc h)"
proof -
  obtain l h1 where gf: "getFields etc h = (l, h1)" by (cases "getFields etc h")
  obtain ord rest where rl: "reorder_loop names [] (maps h1 l) = (ord, rest)"
    by (cases "reorder_loop names [] (maps h1 l)")
  let ?h3 = "snd (alloc_map (spread ord rest) (h1\<lparr>maps := (maps h1)(l := rest)\<rparr>))"
  have rf: "reorderFields names etc h = setFields (next_map h1) etc ?h3"
    by (simp add: reorderFields_def gf rl split_def Let_def)
  have sub: "snd ` set (spread ord rest) \<subseteq> snd ` set (maps h1 l)"
    using values_spread[of ord rest] reorder_loop_values[OF rl] by (simp add: subset_iff) blast
  show ?thesis
    unfolding rf using wf gf sub by (rule frame_rewrite_lookup) simp_all
qed

lemma frame_extendField:
  assumes wf: "wf_composer h etc"
  shows "frame (cache_maps h etc) (view_objs h etc) (gqType etc) h
           (snd (extendField name partial etc h))"
proof -
  obtain l h1 where gf: "getFields etc h = (l, h1)" by (cases "getFields etc h")
  note f = frame_getFields[OF wf gf]
  have f1: "frame (cache_maps h etc) (view_objs h etc) (gqType etc) h h1"
    using f(1) by (rule frame_mono) simp_all
  show ?thesis
  proof (cases "map_of (maps h1 l) name")
    case None
    then have "snd (extendField name partial etc h) = h1"
      by (simp add: extendField_def getField_def gf)
    then show ?thesis using f1 by simp
  next
    case (Some v)
    let ?h2 = "snd (alloc_obj (spread (objs h1 v) partial) h1)"
    have ef: "snd (extendField name partial etc h) = setField name (next_obj h1) etc ?h2"
      by (simp add: extendField_def getField_def gf Some split_def Let_def)
    have wf2: "wf_composer ?h2 etc"
      using getFields_stored(3)[OF wf gf] by (rule alloc_obj_wf_composer)
    have f2: "frame (cache_maps h etc) (view_objs h etc) (gqType etc) h ?h2"
      using f1 frame_alloc_obj by (rule frame_trans) simp_all
    have f3: "frame {l} (snd ` set (maps h1 l) \<union> {next_obj h1}) (gqType etc) ?h2
                (setField name (next_obj h1) etc ?h2)"
      using frame_setField[OF wf2, of "next_obj h1" name] by (simp add: f(4,5))
    have ms: "\<forall>m \<in> {l}. m < next_map h \<longrightarrow> m \<in> cache_maps h etc"
      using f(2) by auto
    have os: "\<forall>c \<in> snd ` set (maps h1 l) \<union> {next_obj h1}. c < next_obj h \<longrightarrow> c \<in> view_objs h etc"
    proof (intro ballI impI)
      fix c assume c: "c \<in> snd ` set (maps h1 l) \<union> {next_obj h1}" "c < next_obj h"
      have "next_obj h \<le> next_obj h1" using f(1) by (simp add: frame_def)
      then have "c \<in> snd ` set (maps h1 l)" using c by auto
      then show "c \<in> view_objs h etc" using f(3) c(2) by fastforce
    qed
    show ?thesis
      unfolding ef using f2 f3 ms os by (rule frame_trans)
  qed
qed


lemma cache_after_extendField:
  "fst (extendField name partial etc h) = Inr () \<Longrightarrow>
   nameLookup_cache (types (snd (extendField name partial etc h)) (gqType etc)) = None"
  by (auto simp: extendField_def setField_def addFields_def split_def Let_def
           split: prod.splits sum.splits)

lemma frame_deprecate_loop:
  assumes "wf_composer h etc" "Object_keys (storedFields h etc) = names"
    "fst ` set pairs \<subseteq> set names"
  shows "frame (cache_maps h etc) (view_objs h etc) (gqType etc) h
           (snd (forEach (\<lambda>(field, reason). deprecate_one names field reason etc) pairs h))"
  using assms
proof (induction pairs arbitrary: h)
  case Nil
  then show ?case by (simp add: frame_refl)
next
  case (Cons x pairs)
  obtain f r where x: "x = (f, r)" by (cases x)
  have fin: "f \<in> set names" and rest: "fst ` set pairs \<subseteq> set names"
    using Cons.prems(3) by (auto simp: x)
  note d = deprecate_one_present[OF Cons.prems(1,2) fin, of r]
  obtain h1 where h1: "deprecate_one names f r etc h = (Inr (), h1)"
    using d(1) by (cases "deprecate_one names f r etc h") auto
  have de: "deprecate_one names f r etc h = extendField f [(''deprecationReason'', JStr r)] etc h"
    using fin by (simp add: deprecate_one_def)
  have f1: "frame (cache_maps h etc) (view_objs h etc) (gqType etc) h h1"
    using frame_extendField[OF Cons.prems(1), of f "[(''deprecationReason'', JStr r)]"]
    by (simp add: de[symmetric] h1)
  have "nameLookup_cache (types h1 (gqType etc)) = None"
    using cache_after_extendField[of f "[(''deprecationReason'', JStr r)]" etc h]
    by (simp add: de[symmetric] h1)
  then have e: "cache_maps h1 etc = {}" "view_objs h1 etc = {}"
    by (simp_all add: cache_maps_def view_objs_def)
  have ks: "Object_keys (storedFields h1 etc) = names"
    using d(2) Cons.prems(2) by (simp add: h1)
  have wf1: "wf_composer h1 etc" using d(3) by (simp add: h1)
  have f2: "frame {} {} (gqType etc) h1
      (snd (forEach (\<lambda>(field, reason). deprecate_one names field reason etc) pairs h1))"
    using Cons.IH[OF wf1 ks rest] by (simp add: e)
  have "frame (cache_maps h etc) (view_objs h etc) (gqType etc) h
      (snd (forEach (\<lambda>(field, reason). deprecate_one names field reason etc) pairs h1))"
    using f1 f2 by (rule frame_trans) simp_all
  then show ?case by (simp add: x h1)
qed

lemma frame_deprecateFields:
  assumes wf: "wf_composer h etc"
  shows "frame (cache_maps h etc) (view_objs h etc) (gqType etc) h
           (snd (deprecateFields flds etc h))"
proof -
  obtain l h1 where gf: "getFields etc h = (l, h1)" by (cases "getFields etc h")
  note f = frame_getFields[OF wf gf]
  note st = deprecateFields_start[OF wf]
  let ?names = "fst (getFieldNames etc h)"
  let ?G = "\<lambda>(field, reason). deprecate_one ?names field reason etc"
  have h0: "snd (getFieldNames etc h) = h1"
    by (simp add: getFieldNames_def gf)
  have loop: "deprecateFields flds etc h = forEach ?G (deprecate_targets flds) h1"
    using deprecateFields_loop[of flds etc h] by (simp add: h0)
  have wf1: "wf_composer h1 etc" using st(1) by (simp add: h0)
  have ks: "Object_keys (storedFields h1 etc) = ?names"
    using st(2,4) by (simp add: h0)
  have "\<exists>pre. set pre \<subseteq> set (deprecate_targets flds) \<and> fst ` set pre \<subseteq> set ?names \<and>
          snd (deprecateFields flds etc h) = snd (forEach ?G pre h1)"
  proof (cases "\<forall>x \<in> set (deprecate_targets flds). fst x \<in> set ?names")
    case True
    then have "fst ` set (deprecate_targets flds) \<subseteq> set ?names" by auto
    then show ?thesis using loop by auto
  next
    case False
    then have "\<exists>x \<in> set (deprecate_targets flds). fst x \<notin> set ?names" by simp
    from split_list_first_prop[OF this]
    obtain pre x post where sp: "deprecate_targets flds = pre @ x # post"
      and x: "fst x \<notin> set ?names" and pre: "\<forall>y \<in> set pre. \<not> fst y \<notin> set ?names"
      by blast
    obtain fx r where fr: "x = (fx, r)" by (cases x)
    have sub: "fst ` set pre \<subseteq> set ?names" using pre by auto
    have fm: "fx \<notin> set ?names" using x by (simp add: fr)
    have "snd (deprecateFields flds etc h) = snd (forEach ?G pre h1)"
      unfolding loop sp fr deprecate_loop_fail[OF wf1 ks sub fm] by simp
    then show ?thesis using sub sp by auto
  qed
  then obtain pre where sub: "fst ` set pre \<subseteq> set ?names"
    and eq: "snd (deprecateFields flds etc h) = snd (forEach ?G pre h1)"
    by blast
  have f2: "frame {l} (snd ` set (maps h1 l)) (gqType etc) h1 (snd (deprecateFields flds etc h))"
    using frame_deprecate_loop[OF wf1 ks sub] by (simp add: eq f(4,5))
  have f1: "frame (cache_maps h etc) (view_objs h etc) (gqType etc) h h1"
    using f(1) by (rule frame_mono) simp_all
  have ms: "\<forall>m \<in> {l}. m < next_map h \<longrightarrow> m \<in> cache_maps h etc"
    using f(2) by auto
  have os: "\<forall>c \<in> snd ` set (maps h1 l). c < next_obj h \<longrightarrow> c \<in> view_objs h etc"
    using f(3) by fastforce
  show ?thesis
    using f1 f2 ms os by (rule frame_trans)
qed

lemma frame_mutate:
  assumes wf: "wf_composer h etc" and al: "arg_allocated h mu"
  shows "frame (cache_maps h etc) (view_objs h etc \<union> arg_objs h mu) (gqType etc) h (mutate mu etc h)"
proof (cases mu)
  case (SetFields m)
  have "frame {} (snd ` set (maps h m)) (gqType etc) h (setFields m etc h)"
    by (rule frame_setFields)
  then have "frame (cache_maps h etc) (view_objs h etc \<union> snd ` set (maps h m)) (gqType etc) h
      (setFields m etc h)"
    by (rule frame_mono) simp_all
  then show ?thesis
    by (simp add: SetFields arg_objs_def)
next
  case (SetField name c)
  show ?thesis
    using frame_setField[OF wf, of c name] by (simp add: SetField arg_objs_def)
next
  case (AddFields m)
  show ?thesis
    using frame_addFields[OF wf, of m] al by (simp add: AddFields arg_objs_def arg_allocated_def)
next
  case (RemoveField x)
  show ?thesis
    using frame_removeField[OF wf, of x] by (simp add: RemoveField arg_objs_def)
next
  case (RemoveOtherFields x)
  show ?thesis
    using frame_removeOtherFields[OF wf, of x] by (simp add: RemoveOtherFields arg_objs_def)
next
  case (ReorderFields names)
  show ?thesis
    using frame_reorderFields[OF wf, of names] by (simp add: ReorderFields arg_objs_def)
next
  case (ExtendField name partial)
  show ?thesis
    using frame_extendField[OF wf, of name partial] by (simp add: ExtendField arg_objs_def)
next
  case (SetTypeName name)
  have "frame {} {} (gqType etc) h (setTypeName name etc h)"
    by (simp add: frame_def setTypeName_def Let_def)
  then have "frame (cache_maps h etc) (view_objs h etc) (gqType etc) h (setTypeName name etc h)"
    by (rule frame_mono) simp_all
  then show ?thesis
    by (simp add: SetTypeName arg_objs_def)
next
  case (SetDescription d)
  have "frame {} {} (gqType etc) h (setDescription d etc h)"
    by (simp add: frame_def setDescription_def Let_def)
  then have "frame (cache_maps h etc) (view_objs h etc) (gqType etc) h (setDescription d etc h)"
    by (rule frame_mono) simp_all
  then show ?thesis
    by (simp add: SetDescription arg_objs_def)
next
  case (DeprecateFields flds)
  show ?thesis
    using frame_deprecateFields[OF wf, of flds] by (simp add: DeprecateFields arg_objs_def)
qed


lemma frame_preserves:
  assumes fr: "frame Ms Os t h h'" and wf: "wf_composer h y" and ty: "gqType y \<noteq> t"
    and sm: "config_values (enumConfig (types h (gqType y))) \<notin> Ms"
    and cm: "cache_maps h y \<inter> Ms = {}" and vo: "view_objs h y \<inter> Os = {}"
  shows "wf_composer h' y" and "storedFields h' y = storedFields h y" and "observe h' y = observe h y"
proof -
  let ?s = "config_values (enumConfig (types h (gqType y)))"
  have T: "types h' (gqType y) = types h (gqType y)"
    using fr ty by (simp add: frame_def)
  have s: "?s < next_map h" and ds: "distinct (Object_keys (maps h ?s))"
    and sall: "\<forall>(k, c) \<in> set (maps h ?s). c < next_obj h \<and> map_of (objs h c) ''isDeprecated'' = None"
    and yt: "gqType y < next_type h"
    using wf by (auto simp: wf_composer_def wf_map_def Let_def)
  have ms: "maps h' ?s = maps h ?s"
    using fr s sm by (simp add: frame_def)
  have os: "\<forall>(k, c) \<in> set (maps h ?s). objs h' c = objs h c"
  proof (clarify)
    fix k c assume "(k, c) \<in> set (maps h ?s)"
    then have c: "c < next_obj h" "map_of (objs h c) ''isDeprecated'' = None"
      using sall by auto
    have "objs h' c = objs h c \<or> objs h' c = delete_isDeprecated (objs h c)"
      using fr c(1) by (simp add: frame_def)
    then show "objs h' c = objs h c"
      using delete_isDeprecated_none[OF c(2)] by auto
  qed
  have es: "entries h' ?s = entries h ?s"
    unfolding entries_map_values ms using os by (intro map_values_cong) auto
  show st: "storedFields h' y = storedFields h y"
    by (simp add: storedFields_def T es)
  have nx: "next_obj h \<le> next_obj h'" "next_map h \<le> next_map h'" "next_type h \<le> next_type h'"
    using fr by (simp_all add: frame_def)
  have a1: "\<forall>(k, c) \<in> set (maps h ?s). c < next_obj h'"
    using sall nx(1) by fastforce
  have a2: "\<forall>(k, c) \<in> set (maps h ?s). map_of (objs h' c) ''isDeprecated'' = None"
    using sall os by fastforce
  show wf': "wf_composer h' y"
  proof (cases "nameLookup_cache (types h (gqType y))")
    case None
    then show ?thesis
      using s ds a1 a2 nx yt by (simp add: wf_composer_def wf_map_def Let_def T ms)
  next
    case (Some l)
    have l: "l < next_map h" and lall: "\<forall>(k, v) \<in> set (maps h l). v < next_obj h"
      and ch: "entries h l = map_values defineEnumValue (entries h ?s)"
      using wf Some by (auto simp: wf_composer_def Let_def)
    have "l \<notin> Ms" using cm Some by (simp add: cache_maps_def)
    then have ml: "maps h' l = maps h l" using fr l by (simp add: frame_def)
    have ol: "\<forall>(k, v) \<in> set (maps h l). objs h' v = objs h v"
    proof (clarify)
      fix k v assume kv: "(k, v) \<in> set (maps h l)"
      then have "v \<in> view_objs h y" using Some by (force simp: view_objs_def)
      then have "v \<notin> Os" using vo by blast
      moreover have "v < next_obj h" using lall kv by auto
      ultimately show "objs h' v = objs h v" using fr by (simp add: frame_def)
    qed
    have el: "entries h' l = entries h l"
      unfolding entries_map_values ml using ol by (intro map_values_cong) auto
    have a3: "\<forall>(k, v) \<in> set (maps h l). v < next_obj h'"
      using lall nx(1) by fastforce
    show ?thesis
      using s ds a1 a2 a3 nx yt l ch
      by (simp add: wf_composer_def wf_map_def Let_def T ms Some ml el es)
  qed
  show "observe h' y = observe h y"
    by (simp add: observe_def getTypeName_def getDescription_def T readFields_stored[OF wf]
          readFields_stored[OF wf'] st)
qed

lemma alloc_type_simps [simp]:
  "fst (alloc_type t h) = next_type h"
  "types (snd (alloc_type t h)) = (types h)(next_type h := t)"
  "next_type (snd (alloc_type t h)) = Suc (next_type h)"
  "maps (snd (alloc_type t h)) = maps h"
  "objs (snd (alloc_type t h)) = objs h"
  "next_map (snd (alloc_type t h)) = next_map h"
  "next_obj (snd (alloc_type t h)) = next_obj h"
  by (simp_all add: alloc_type_def)

lemma clone_values_frame:
  assumes "clone_values m h = (nvs, h2)"
  shows "maps h2 = maps h" "types h2 = types h" "next_map h2 = next_map h"
        "next_type h2 = next_type h" "next_obj h2 = next_obj h + length m"
        "Object_keys nvs = Object_keys m"
  using assms
  by (induction m arbitrary: h nvs h2;
      auto simp: alloc_obj_def Let_def split: prod.splits)+

lemma clone_values_objs:
  assumes "clone_values m h = (nvs, h2)" "\<forall>(k, v) \<in> set m. v < next_obj h"
  shows "(\<forall>c < next_obj h. objs h2 c = objs h c) \<and>
         (\<forall>(k, c) \<in> set nvs. next_obj h \<le> c \<and> c < next_obj h2 \<and>
                               map_of (objs h2 c) ''isDeprecated'' = None) \<and>
         map_values (objs h2) nvs = map_values (\<lambda>v. delete_isDeprecated (objs h v)) m"
  using assms
proof (induction m arbitrary: h nvs h2)
  case Nil
  then show ?case by simp
next
  case (Cons x m)
  obtain k v where x: "x = (k, v)" by (cases x)
  let ?h1 = "h\<lparr>next_obj := Suc (next_obj h),
                 objs := (objs h)(next_obj h := delete_isDeprecated (objs h v))\<rparr>"
  obtain l1 where rec: "clone_values m ?h1 = (l1, h2)" and l: "nvs = (k, next_obj h) # l1"
    using Cons.prems(1) by (auto simp: x alloc_obj_def Let_def split: prod.splits)
  have pre: "\<forall>(k, v) \<in> set m. v < next_obj ?h1"
    using Cons.prems(2) by auto
  note IH = Cons.IH[OF rec pre]
  have old: "\<forall>a < next_obj h. objs h2 a = objs h a"
    using IH by auto
  have new: "objs h2 (next_obj h) = delete_isDeprecated (objs h v)"
    using IH by auto
  have nx: "next_obj h < next_obj h2"
    using clone_values_frame(5)[OF rec] by simp
  have eq: "map_values (\<lambda>a. delete_isDeprecated (objs ?h1 a)) m =
            map_values (\<lambda>a. delete_isDeprecated (objs h a)) m"
    using Cons.prems(2) by (intro map_values_cong) auto
  have "map_values (objs h2) l1 = map_values (\<lambda>a. delete_isDeprecated (objs ?h1 a)) m"
    using IH by blast
  then have mv: "map_values (objs h2) l1 = map_values (\<lambda>a. delete_isDeprecated (objs h a)) m"
    unfolding eq .
  have rng: "\<forall>(k, c) \<in> set l1. next_obj h \<le> c \<and> c < next_obj h2 \<and>
                               map_of (objs h2 c) ''isDeprecated'' = None"
    using IH by auto
  show ?case
    using old new nx mv rng by (simp add: l x)
qed


lemma clone_empty:
  "clone [] etc h =
     (Inl (Error ''You should provide newTypeName:string for EnumTypeComposer.clone()''), h)"
  by (simp add: clone_def)

lemma clone_result:
  assumes wf: "wf_composer h etc" and ne: "newTypeName \<noteq> []"
  defines "cloned \<equiv> EnumTypeComposer (next_type h)"
  defines "h' \<equiv> snd (clone newTypeName etc h)"
  shows "fst (clone newTypeName etc h) = Inr cloned"
    and "wf_composer h' cloned" and "wf_composer h' etc"
    and "storedFields h' cloned = storedFields h etc"
    and "observe h' etc = observe h etc"
    and "getTypeName cloned h' = newTypeName"
    and "getDescription cloned h' = getDescription etc h"
    and "cache_maps h' cloned = {}" and "view_objs h' cloned = {}"
    and "config_values (enumConfig (types h' (gqType cloned))) \<notin> cache_maps h' etc"
    and "gqType cloned \<noteq> gqType etc"
proof -
  obtain l h1 where gf: "getFields etc h = (l, h1)" by (cases "getFields etc h")
  note g = getFields_spec[OF wf gf]
  note g' = getFields_stored[OF wf gf]
  obtain nvs h2 where cv: "clone_values (maps h1 l) h1 = (nvs, h2)"
    by (cases "clone_values (maps h1 l) h1")
  note cf = clone_values_frame[OF cv]
  note co = clone_values_objs[OF cv g(9)]
  let ?nv = "next_map h1"
  let ?t = "next_type h"
  let ?d = "getDescription etc h"
  have ty: "gqType etc < next_type h" using wf by (rule wf_composer_type)
  show ne_t: "gqType cloned \<noteq> gqType etc"
    using ty by (simp add: cloned_def)
  have d4: "type_description (types h1 (gqType etc)) = type_description (types h (gqType etc))"
    by (simp add: g(7))
  let ?T = "\<lparr>type_name = newTypeName, type_description = Some ?d,
             enumConfig = \<lparr>config_name = newTypeName, config_description = Some ?d,
                           config_values = ?nv\<rparr>,
             values_cache = None, valueLookup_cache = None, nameLookup_cache = None\<rparr>"
  have cl: "clone newTypeName etc h = (Inr cloned, h')"
    and ty': "types h' = (types h1)(?t := ?T)"
    and mp': "maps h' = (maps h1)(?nv := nvs)"
    and ob': "objs h' = objs h2"
    and nx': "next_obj h' = next_obj h2" "next_map h' = Suc ?nv" "next_type h' = Suc ?t"
    using ne ty cf(1-4) d4
    by (simp_all add: h'_def cloned_def clone_def gf cv split_def Let_def new_GraphQLEnumType_def
          setDescription_def getDescription_def g(3))
  show "fst (clone newTypeName etc h) = Inr cloned" by (simp add: cl)
  show "getTypeName cloned h' = newTypeName" "getDescription cloned h' = getDescription etc h"
    by (simp_all add: getTypeName_def getDescription_def ty' cloned_def)
  have cache_etc: "nameLookup_cache (types h' (gqType etc)) = Some l"
    using ty by (simp add: ty' g(7))
  show "cache_maps h' cloned = {}" "view_objs h' cloned = {}"
    by (simp_all add: cache_maps_def view_objs_def ty' cloned_def)
  show "config_values (enumConfig (types h' (gqType cloned))) \<notin> cache_maps h' etc"
    using g(8) by (simp add: cache_maps_def cache_etc) (simp add: ty' cloned_def)
  have fr: "frame {} {} ?t h1 h'"
    using co cf(5) by (simp add: frame_def ty' mp' ob' nx' g(3))
  have ty1: "gqType etc \<noteq> ?t" using ty by simp
  note p = frame_preserves[OF fr g'(3) ty1]
  show "wf_composer h' etc" by (rule p(1)) simp_all
  have o1: "observe h' etc = observe h1 etc" by (rule p(3)) simp_all
  have "observe h1 etc = observe h etc"
    by (simp add: observe_def getTypeName_def getDescription_def g(7)
          readFields_stored[OF wf] readFields_stored[OF g'(3)] g'(2))
  with o1 show "observe h' etc = observe h etc" by simp
  have dk: "distinct (Object_keys nvs)"
    using stored_distinct[OF wf] by (simp add: cf(6) getFields_keys[OF wf gf])
  have en: "entries h' ?nv = storedFields h etc"
  proof -
    have "entries h' ?nv = map_values (objs h2) nvs"
      by (simp add: entries_map_values mp' ob')
    also have "\<dots> = map_values delete_isDeprecated (entries h1 l)"
      using co by (simp add: entries_map_values)
    also have "\<dots> = storedFields h etc"
      using stored_clean[OF wf] by (simp add: g(10))
    finally show ?thesis .
  qed
  show "storedFields h' cloned = storedFields h etc"
    by (simp add: storedFields_def ty' cloned_def en)
  have "wf_map h' ?nv"
    using dk co by (fastforce simp: wf_map_def mp' nx' ob')
  moreover have "\<forall>(k, c) \<in> set nvs. map_of (objs h2 c) ''isDeprecated'' = None"
    using co by fastforce
  ultimately show "wf_composer h' cloned"
    by (simp add: wf_composer_def Let_def ty' cloned_def nx' mp' ob')
qed


section \<open>The clone\<close>



section \<open>Name, description and the argument of the full replace\<close>

text \<open>
  C9. After \<^verbatim>\<open>setTypeName(s)\<close> the name of the type, read by \<^verbatim>\<open>getTypeName()\<close>, and
  the name in \<^verbatim>\<open>_enumConfig\<close> are both \<open>s\<close>; after \<^verbatim>\<open>setDescription(s)\<close> the
  description of the type, read by \<^verbatim>\<open>getDescription()\<close>, and the description in
  \<^verbatim>\<open>_enumConfig\<close> are both \<open>s\<close>. Each setter writes the two in one call, so they agree
  whenever a reader can look.
\<close>

theorem name_and_description_mirror:
  "getTypeName etc (setTypeName s etc h) = s \<and>
   type_name (types (setTypeName s etc h) (gqType etc)) = s \<and>
   config_name (enumConfig (types (setTypeName s etc h) (gqType etc))) = s \<and>
   getDescription etc (setDescription s etc h) = s \<and>
   type_description (types (setDescription s etc h) (gqType etc)) = Some s \<and>
   config_description (enumConfig (types (setDescription s etc h) (gqType etc))) = Some s"
  by (simp add: getTypeName_def setTypeName_def getDescription_def setDescription_def Let_def)

text \<open>
  C10. \<^verbatim>\<open>setFields(m)\<close> works on the caller's own objects: the map \<open>m\<close> itself (same
  address, same names and config addresses) becomes the backing map of the type, and
  every value config that \<open>m\<close> refers to has lost its \<^verbatim>\<open>isDeprecated\<close> property in
  the store, so the caller sees its own configs without the marker after the call.
\<close>

theorem setFields_mutates_argument:
  "maps (setFields m etc h) m = maps h m \<and>
   config_values (enumConfig (types (setFields m etc h) (gqType etc))) = m \<and>
   entries (setFields m etc h) m = map_values delete_isDeprecated (entries h m) \<and>
   list_all (\<lambda>(k, p). map_of p ''isDeprecated'' = None) (entries (setFields m etc h) m)"
proof -
  have "list_all (\<lambda>(k, p). map_of p ''isDeprecated'' = None)
          (map_values delete_isDeprecated (entries h m))"
    by (auto simp: list_all_iff map_values_def)
  then show ?thesis
    by (simp add: setFields_entries)
qed

end
